theory Spec2Isabelle
  imports Complex_Main
begin

section \<open>The procedural cityscape renderer of create_cyberpunk_art.py\<close>

text \<open>
  The script has one function, \<open>create_cyberpunk_city\<close>, which paints a 512 x 512 image
  through Pillow's \<open>ImageDraw\<close>, drawing its positions and colours from Python's
  process-wide \<open>random\<close> module, and then writes two files.

  The embedding follows the function line by line.  Python integers are \<open>int\<close>, tuples of
  channel values are \<open>int list\<close>, Python floats are exact rationals (\<open>rat\<close>), \<open>//\<close> is
  \<open>div\<close> and \<open>int(...)\<close> truncates towards zero.  Every Pillow call the function makes is
  appended to a log; the image is the log painted onto the initial canvas.
\<close>

subsection \<open>Errors, drawing calls and the state of one run\<close>

datatype error = ValueError | IndexError | OSError | TypeError

text \<open>The lines the script prints, one constructor for each \<open>print\<close> of the source.\<close>

datatype message =
    Creating
  | SavedTo string
  | EnhancedSavedTo string
  | Success
  | GeneratedFiles
  | PathLine string
  | ErrorCreating error
  | Traceback

text \<open>The source line that issued a call (an annotation of the model).\<close>

datatype role =
    Canvas | Background | Building | Window | CarBody | Trail | Sign | SignGlow | Rain
  | Overlay | Glow

text \<open>
  The argument shapes of \<open>draw.line\<close>, \<open>draw.rectangle\<close> (filled, or outlined with a
  width) and \<open>draw.ellipse\<close>; a box is \<open>x0 y0 x1 y1\<close>, both corners included.
  \<open>NewImage width height\<close> is the size passed to \<open>Image.new\<close>, whose fill colour is the ink.
\<close>

datatype shape =
    Line int int int int nat
  | FilledRect int int int int
  | OutlineRect int int int int nat
  | FilledEllipse int int int int
  | NewImage int int

record call =
  role :: role
  shape :: shape
  ink :: "int list"

text \<open>
  The random source is a stream of raw numbers \<open>src\<close> read at position \<open>pos\<close>: the state
  of the process-wide generator.  \<open>calls\<close> is the log of drawing calls issued so far,
  \<open>printed\<close> the lines written to standard output, \<open>dirs\<close> and \<open>files\<close> the directories
  and files the run has created, and \<open>unwritable\<close> the paths at which the file system
  refuses to create anything (fixed by the environment).
\<close>

record world =
  src :: "nat \<Rightarrow> nat"
  pos :: nat
  calls :: "call list"
  printed :: "message list"
  dirs :: "string list"
  files :: "string list"
  unwritable :: "string \<Rightarrow> bool"

type_synonym 'a gen = "world \<Rightarrow> (error + 'a) \<times> world"

definition ret :: "'a \<Rightarrow> 'a gen" where
  "ret v w = (Inr v, w)"

definition raise :: "error \<Rightarrow> 'a gen" where
  "raise e w = (Inl e, w)"

definition bind :: "'a gen \<Rightarrow> ('a \<Rightarrow> 'b gen) \<Rightarrow> 'b gen" where
  "bind m f w = (case m w of (Inl e, w') \<Rightarrow> (Inl e, w') | (Inr v, w') \<Rightarrow> f v w')"

primrec for_each :: "'i list \<Rightarrow> ('i \<Rightarrow> unit gen) \<Rightarrow> unit gen" where
  "for_each [] body = ret ()"
| "for_each (i # rest) body = bind (body i) (\<lambda>_. for_each rest body)"

definition py_range :: "int \<Rightarrow> int list" where
  "py_range n = map int [0..<nat n]"

definition py_int :: "rat \<Rightarrow> int" where
  "py_int x = (if 0 \<le> x then \<lfloor>x\<rfloor> else \<lceil>x\<rceil>)"

subsection \<open>The random module\<close>

text \<open>
  Each call of the random module consumes one raw number.  \<open>randbelow n\<close> reduces it
  modulo \<open>n\<close>, so every value below \<open>n\<close> is the outcome of some stream.
  \<open>random.randint(a, b)\<close> raises \<open>ValueError\<close> on an empty range, \<open>random.random()\<close>
  returns a multiple of \<open>2^-53\<close> in \<open>[0, 1)\<close>, \<open>random.choice\<close> raises \<open>IndexError\<close> on
  an empty sequence.
\<close>

definition next_raw :: "nat gen" where
  "next_raw w = (Inr (src w (pos w)), w\<lparr>pos := Suc (pos w)\<rparr>)"

definition randbelow :: "nat \<Rightarrow> nat gen" where
  "randbelow n = bind next_raw (\<lambda>r. ret (r mod n))"

definition randint :: "int \<Rightarrow> int \<Rightarrow> int gen" where
  "randint a b =
     (if b < a then raise ValueError
      else bind (randbelow (nat (b - a + 1))) (\<lambda>k. ret (a + int k)))"

definition random :: "rat gen" where
  "random = bind (randbelow (2 ^ 53)) (\<lambda>k. ret (of_nat k / 2 ^ 53))"

definition choice :: "'a list \<Rightarrow> 'a gen" where
  "choice xs =
     (if xs = [] then raise IndexError
      else bind (randbelow (length xs)) (\<lambda>k. ret (xs ! k)))"

subsection \<open>Issuing a drawing call\<close>

text \<open>
  Pillow rejects a rectangle or an ellipse whose second corner lies before the first, and
  an image of negative width or height (\<open>ValueError\<close>); a line takes any two points.  An
  accepted call is logged.
\<close>

fun bad_box :: "shape \<Rightarrow> bool" where
  "bad_box (Line x0 y0 x1 y1 wd) = False"
| "bad_box (FilledRect x0 y0 x1 y1) = (x1 < x0 \<or> y1 < y0)"
| "bad_box (OutlineRect x0 y0 x1 y1 wd) = (x1 < x0 \<or> y1 < y0)"
| "bad_box (FilledEllipse x0 y0 x1 y1) = (x1 < x0 \<or> y1 < y0)"
| "bad_box (NewImage width height) = (width < 0 \<or> height < 0)"

definition draw :: "role \<Rightarrow> shape \<Rightarrow> int list \<Rightarrow> unit gen" where
  "draw rl s c w =
     (if bad_box s then (Inl ValueError, w)
      else (Inr (), w\<lparr>calls := calls w @ [\<lparr>role = rl, shape = s, ink = c\<rparr>]\<rparr>))"

subsection \<open>Stage 1: the background gradient (source lines 19 to 25)\<close>

definition gradient_color :: "int \<Rightarrow> int \<Rightarrow> int list" where
  "gradient_color height y =
     (let purple = py_int (60 * (1 - of_int y / of_int height));
          blue = py_int (30 + 40 * (of_int y / of_int height))
      in [purple + 20, 10, blue])"

definition draw_gradient :: "int \<Rightarrow> int \<Rightarrow> unit gen" where
  "draw_gradient width height =
     for_each (py_range height) (\<lambda>y.
       draw Background (Line 0 y width y 0) (gradient_color height y))"

subsection \<open>Stage 3: the windows of one building (source lines 40 to 62)\<close>

definition neon_colors :: "int list list" where
  "neon_colors =
     [[0, 255, 255], [255, 0, 255], [255, 255, 0], [0, 255, 100], [255, 100, 0], [100, 100, 255]]"

definition window_box :: "int \<Rightarrow> int \<Rightarrow> int \<Rightarrow> int \<Rightarrow> shape" where
  "window_box bx by row col =
     (let wx = bx + col * 15 + 5; wy = by + row * 20 + 5
      in FilledRect wx wy (wx + 8) (wy + 12))"

definition draw_window :: "int \<Rightarrow> int \<Rightarrow> int \<Rightarrow> int \<Rightarrow> unit gen" where
  "draw_window bx by row col =
     bind random (\<lambda>u.
       if u > 3 / 10 then
         bind (choice neon_colors) (\<lambda>color. draw Window (window_box bx by row col) color)
       else ret ())"

definition draw_windows :: "int \<Rightarrow> int \<Rightarrow> int \<Rightarrow> int \<Rightarrow> unit gen" where
  "draw_windows bx by bw bh =
     (let window_rows = bh div 20; window_cols = bw div 15
      in for_each (py_range window_rows) (\<lambda>row.
           for_each (py_range window_cols) (\<lambda>col. draw_window bx by row col)))"

subsection \<open>Stage 2: one building and its windows (source lines 29 to 62)\<close>

definition draw_building :: "int \<Rightarrow> int \<Rightarrow> unit gen" where
  "draw_building width height =
     bind (randint 0 (width - 80)) (\<lambda>bx.
     bind (randint (height div 3) (height - 50)) (\<lambda>by.
     bind (randint 30 80) (\<lambda>bw.
     let bh = height - by in
     bind (randint 10 30) (\<lambda>r.
     bind (randint 10 30) (\<lambda>g.
     bind (randint 10 30) (\<lambda>b.
     bind (draw Building (FilledRect bx by (bx + bw) (by + bh)) [r, g, b]) (\<lambda>_.
     draw_windows bx by bw bh)))))))"

subsection \<open>Stage 4: a flying car and its trail (source lines 66 to 79)\<close>

definition car_colors :: "int list list" where
  "car_colors = [[255, 0, 255], [0, 255, 255], [255, 255, 0]]"

text \<open>
  \<open>tuple(int(c * alpha * 0.5) for c in car_color)\<close> with \<open>alpha = 1 - (j / trail_length)\<close>,
  in exact arithmetic.  (In binary floating point a few of these products fall just below
  an integer, so the Python value can be one less; it lies in the same range.)
\<close>

definition trail_color :: "int list \<Rightarrow> int \<Rightarrow> int \<Rightarrow> int list" where
  "trail_color car_color j trail_length =
     (let alpha = 1 - of_int j / of_int trail_length
      in map (\<lambda>c. py_int (of_int c * alpha * (1 / 2))) car_color)"

definition draw_car :: "int \<Rightarrow> int \<Rightarrow> unit gen" where
  "draw_car width height =
     bind (randint 0 width) (\<lambda>cx.
     bind (randint (height div 4) (height div 2)) (\<lambda>cy.
     bind (choice car_colors) (\<lambda>car_color.
     bind (draw CarBody (FilledEllipse (cx - 3) (cy - 2) (cx + 3) (cy + 2)) car_color) (\<lambda>_.
     bind (randint 15 30) (\<lambda>trail_length.
     for_each (py_range trail_length) (\<lambda>j.
       draw Trail (FilledEllipse (cx - j - 1) (cy - 1) (cx - j + 1) (cy + 1))
         (trail_color car_color j trail_length)))))))"

subsection \<open>Stage 5: a neon sign and its glow rings (source lines 83 to 95)\<close>

definition sign_glow_color :: "int list \<Rightarrow> int \<Rightarrow> int list" where
  "sign_glow_color sign_color glow =
     map (\<lambda>c. py_int (of_int c * (8 / 10 - of_int glow * (2 / 10)))) sign_color"

definition sign_glow_box :: "int \<Rightarrow> int \<Rightarrow> int \<Rightarrow> shape" where
  "sign_glow_box sx sy glow =
     OutlineRect (sx - glow) (sy - glow) (sx + 60 + glow) (sy + 20 + glow) 1"

definition draw_sign :: "int \<Rightarrow> int \<Rightarrow> unit gen" where
  "draw_sign width height =
     bind (randint 50 (width - 100)) (\<lambda>sx.
     bind (randint (height div 3) (height div 2)) (\<lambda>sy.
     bind (choice car_colors) (\<lambda>sign_color.
     bind (draw Sign (OutlineRect sx sy (sx + 60) (sy + 20) 2) sign_color) (\<lambda>_.
     for_each (py_range 3) (\<lambda>glow.
       draw SignGlow (sign_glow_box sx sy glow) (sign_glow_color sign_color glow))))))"

subsection \<open>Stage 6: a rain streak (source lines 99 to 103)\<close>

definition draw_rain :: "int \<Rightarrow> int \<Rightarrow> unit gen" where
  "draw_rain width height =
     bind (randint 0 width) (\<lambda>rx.
     bind (randint 0 (height - 50)) (\<lambda>ry.
     let rain_color = [100, 150, 200, 128] in
     draw Rain (Line rx ry (rx - 2) (ry + 15) 1) (take 3 rain_color)))"

subsection \<open>Stage 7: an atmospheric glow on the overlay (source lines 111 to 120)\<close>

text \<open>\<open>range(radius, 0, -5)\<close>: from \<open>radius\<close> downwards in steps of 5 while positive.\<close>

function range_down5 :: "int \<Rightarrow> int list" where
  "range_down5 r = (if 0 < r then r # range_down5 (r - 5) else [])"
  by pat_completeness auto
termination
  by (relation "measure nat") auto

declare range_down5.simps [simp del]

definition glow_color :: "int \<Rightarrow> int \<Rightarrow> int list" where
  "glow_color radius r =
     (let alpha = py_int (of_int (30 * (radius - r)) / of_int radius)
      in [255, 100, 255, alpha])"

definition draw_glow :: "int \<Rightarrow> int \<Rightarrow> unit gen" where
  "draw_glow width height =
     bind (randint 0 width) (\<lambda>gx.
     bind (randint 0 (height div 2)) (\<lambda>gy.
     bind (randint 30 80) (\<lambda>radius.
     for_each (range_down5 radius) (\<lambda>r.
       draw Glow (FilledEllipse (gx - r) (gy - r) (gx + r) (gy + r)) (glow_color radius r)))))"

subsection \<open>The drawing stages in order\<close>

text \<open>
  Source lines 16 to 120.  The source fixes \<open>width, height = 512, 512\<close> and uses the two
  variables in every stage; \<open>render\<close> is that sequence with the two variables as
  parameters: \<open>Image.new('RGB', (width, height), (10, 10, 30))\<close>, stages 1 to 6,
  \<open>Image.new('RGBA', (width, height), (0, 0, 0, 0))\<close> for the overlay, stage 7.
\<close>

definition render :: "int \<Rightarrow> int \<Rightarrow> unit gen" where
  "render width height =
     bind (draw Canvas (NewImage width height) [10, 10, 30]) (\<lambda>_.
     bind (draw_gradient width height) (\<lambda>_.
     bind (for_each (py_range 15) (\<lambda>i. draw_building width height)) (\<lambda>_.
     bind (for_each (py_range 8) (\<lambda>i. draw_car width height)) (\<lambda>_.
     bind (for_each (py_range 6) (\<lambda>i. draw_sign width height)) (\<lambda>_.
     bind (for_each (py_range 200) (\<lambda>i. draw_rain width height)) (\<lambda>_.
     bind (draw Overlay (NewImage width height) [0, 0, 0, 0]) (\<lambda>_.
     for_each (py_range 10) (\<lambda>i. draw_glow width height))))))))"

subsection \<open>Output: printing, the directory, the two files, and the entry point\<close>

definition print :: "message \<Rightarrow> unit gen" where
  "print m w = (Inr (), w\<lparr>printed := printed w @ [m]\<rparr>)"

text \<open>\<open>os.makedirs(d, exist_ok=True)\<close> and \<open>img.save(path)\<close> raise \<open>OSError\<close> when the
  file system refuses the path.  File contents are not recorded, only which files exist.\<close>

definition makedirs :: "string \<Rightarrow> unit gen" where
  "makedirs d w =
     (if unwritable w d then (Inl OSError, w) else (Inr (), w\<lparr>dirs := dirs w @ [d]\<rparr>))"

definition save :: "string \<Rightarrow> unit gen" where
  "save path w =
     (if unwritable w path then (Inl OSError, w) else (Inr (), w\<lparr>files := files w @ [path]\<rparr>))"

definition create_cyberpunk_city :: "(string \<times> string) gen" where
  "create_cyberpunk_city =
     bind (print Creating) (\<lambda>_.
     bind (makedirs ''ai-output'') (\<lambda>_.
     let width = 512; height = 512 in
     bind (render width height) (\<lambda>_.
     let output_path = ''ai-output/cyberpunk-city.png'' in
     bind (save output_path) (\<lambda>_.
     bind (print (SavedTo output_path)) (\<lambda>_.
     let enhanced_path = ''ai-output/cyberpunk-city-enhanced.png'' in
     bind (save enhanced_path) (\<lambda>_.
     bind (print (EnhancedSavedTo enhanced_path)) (\<lambda>_.
     ret (output_path, enhanced_path))))))))"

text \<open>
  The function is declared without parameters (\<open>def create_cyberpunk_city():\<close>): a call
  that passes arguments raises \<open>TypeError\<close> before the body runs.
\<close>

definition call_create_cyberpunk_city :: "int list \<Rightarrow> (string \<times> string) gen" where
  "call_create_cyberpunk_city args =
     (if args = [] then create_cyberpunk_city else raise TypeError)"

text \<open>The \<open>__main__\<close> block: the \<open>try\<close> around the call and its \<open>except Exception\<close>.\<close>

definition main :: "world \<Rightarrow> world" where
  "main w =
     (case create_cyberpunk_city w of
        (Inr paths, w1) \<Rightarrow>
          snd (bind (print Success) (\<lambda>_.
               bind (print GeneratedFiles) (\<lambda>_.
               for_each [fst paths, snd paths] (\<lambda>path. print (PathLine path)))) w1)
      | (Inl e, w1) \<Rightarrow>
          snd (bind (print (ErrorCreating e)) (\<lambda>_. print Traceback) w1))"

subsection \<open>What a computation does to the state\<close>

definition world0 :: "(nat \<Rightarrow> nat) \<Rightarrow> (string \<Rightarrow> bool) \<Rightarrow> world" where
  "world0 s u =
     \<lparr>src = s, pos = 0, calls = [], printed = [], dirs = [], files = [], unwritable = u\<rparr>"

text \<open>The state after reading \<open>n\<close> raw numbers and logging the calls \<open>new\<close>.\<close>

definition advance :: "world \<Rightarrow> nat \<Rightarrow> call list \<Rightarrow> world" where
  "advance w n new = w\<lparr>pos := pos w + n, calls := calls w @ new\<rparr>"

text \<open>Two states hold the same next \<open>n\<close> raw numbers.\<close>

definition same_draws :: "nat \<Rightarrow> world \<Rightarrow> world \<Rightarrow> bool" where
  "same_draws n w w' = (\<forall>i<n. src w' (pos w' + i) = src w (pos w + i))"

text \<open>
  \<open>runs Q R m\<close>: from every state, \<open>m\<close> returns a value satisfying \<open>R\<close> without raising;
  it only reads raw numbers and appends calls, each satisfying \<open>Q\<close>; and the value, the
  number of raw numbers read and the calls depend on nothing but the raw numbers read.
\<close>

definition runs :: "(call \<Rightarrow> bool) \<Rightarrow> ('a \<Rightarrow> bool) \<Rightarrow> 'a gen \<Rightarrow> bool" where
  "runs Q R m =
     (\<forall>w. \<exists>v n new. m w = (Inr v, advance w n new) \<and> R v \<and> list_all Q new \<and>
        (\<forall>w'. same_draws n w w' \<longrightarrow> m w' = (Inr v, advance w' n new)))"

lemma advance_0 [simp]: "advance w 0 [] = w"
  by (simp add: advance_def)

lemma advance_advance [simp]: "advance (advance w n xs) k ys = advance w (n + k) (xs @ ys)"
  by (simp add: advance_def add.assoc)

lemma advance_fields [simp]:
  "src (advance w n xs) = src w" "pos (advance w n xs) = pos w + n"
  "calls (advance w n xs) = calls w @ xs" "printed (advance w n xs) = printed w"
  "dirs (advance w n xs) = dirs w" "files (advance w n xs) = files w"
  "unwritable (advance w n xs) = unwritable w"
  by (simp_all add: advance_def)

lemma runsD:
  "runs Q R m \<Longrightarrow>
     \<exists>v n new. m w = (Inr v, advance w n new) \<and> R v \<and> list_all Q new \<and>
       (\<forall>w'. same_draws n w w' \<longrightarrow> m w' = (Inr v, advance w' n new))"
  unfolding runs_def by blast

lemma runs_ret: "R v \<Longrightarrow> runs Q R (ret v)"
  unfolding runs_def ret_def
  by (intro allI exI [of _ v] exI [of _ 0] exI [of _ "[]"]) simp

lemma runs_bind:
  assumes m: "runs Q R m" and f: "\<And>v. R v \<Longrightarrow> runs Q S (f v)"
  shows "runs Q S (bind m f)"
  unfolding runs_def
proof (intro allI)
  fix w
  from runsD [OF m, of w]
  obtain v n new where 1: "m w = (Inr v, advance w n new)" "R v" "list_all Q new"
    and d1: "\<forall>w'. same_draws n w w' \<longrightarrow> m w' = (Inr v, advance w' n new)"
    by blast
  from runsD [OF f [OF 1(2)], of "advance w n new"] obtain v2 k new2 where
    2: "f v (advance w n new) = (Inr v2, advance (advance w n new) k new2)" "S v2"
       "list_all Q new2"
    and d2: "\<forall>w'. same_draws k (advance w n new) w'
               \<longrightarrow> f v w' = (Inr v2, advance w' k new2)"
    by blast
  have run: "bind m f w = (Inr v2, advance w (n + k) (new @ new2))"
    using 1 2 by (simp add: bind_def)
  have dep: "bind m f w' = (Inr v2, advance w' (n + k) (new @ new2))"
    if sd: "same_draws (n + k) w w'" for w'
  proof -
    have "same_draws n w w'" using sd by (simp add: same_draws_def)
    then have a: "m w' = (Inr v, advance w' n new)" using d1 by blast
    have "same_draws k (advance w n new) (advance w' n new)"
      unfolding same_draws_def
    proof (intro allI impI)
      fix i assume "i < k"
      then have "n + i < n + k" by simp
      with sd have "src w' (pos w' + (n + i)) = src w (pos w + (n + i))"
        unfolding same_draws_def by blast
      then show "src (advance w' n new) (pos (advance w' n new) + i) =
                 src (advance w n new) (pos (advance w n new) + i)"
        by (simp add: add.assoc)
    qed
    then have "f v (advance w' n new) = (Inr v2, advance (advance w' n new) k new2)"
      using d2 by blast
    with a show ?thesis by (simp add: bind_def)
  qed
  show "\<exists>v n new. bind m f w = (Inr v, advance w n new) \<and> S v \<and> list_all Q new \<and>
          (\<forall>w'. same_draws n w w' \<longrightarrow> bind m f w' = (Inr v, advance w' n new))"
    using run 2(2) 1(3) 2(3) dep
    by (intro exI [of _ v2] exI [of _ "n + k"] exI [of _ "new @ new2"]) simp
qed

lemma runs_weaken:
  assumes "runs Q R m" "\<And>c. Q c \<Longrightarrow> Q' c" "\<And>v. R v \<Longrightarrow> R' v"
  shows "runs Q' R' m"
  unfolding runs_def
proof (intro allI)
  fix w
  from runsD [OF assms(1), of w]
  obtain v n new where 1: "m w = (Inr v, advance w n new)" "R v" "list_all Q new"
    and d1: "\<forall>w'. same_draws n w w' \<longrightarrow> m w' = (Inr v, advance w' n new)"
    by blast
  have "list_all Q' new" using 1(3) assms(2) by (simp add: list_all_iff)
  then show "\<exists>v n new. m w = (Inr v, advance w n new) \<and> R' v \<and> list_all Q' new \<and>
          (\<forall>w'. same_draws n w w' \<longrightarrow> m w' = (Inr v, advance w' n new))"
    using 1 d1 assms(3) by blast
qed

lemma runs_for_each:
  assumes "\<And>i. i \<in> set xs \<Longrightarrow> runs Q (\<lambda>_. True) (body i)"
  shows "runs Q (\<lambda>_. True) (for_each xs body)"
  using assms
proof (induction xs)
  case Nil
  show ?case by (simp add: runs_ret)
next
  case (Cons i rest)
  show ?case
    unfolding for_each.simps
    by (rule runs_bind [OF Cons.prems [of i]]) (simp_all add: Cons)
qed

lemma runs_next_raw: "runs Q (\<lambda>_. True) next_raw"
  unfolding runs_def
proof (intro allI)
  fix w
  have "next_raw w' = (Inr (src w (pos w)), advance w' 1 [])" if "same_draws 1 w w'" for w'
    using that by (simp add: next_raw_def advance_def same_draws_def)
  moreover have "next_raw w = (Inr (src w (pos w)), advance w 1 [])"
    by (simp add: next_raw_def advance_def)
  ultimately show "\<exists>v n new. next_raw w = (Inr v, advance w n new) \<and> True \<and> list_all Q new \<and>
          (\<forall>w'. same_draws n w w' \<longrightarrow> next_raw w' = (Inr v, advance w' n new))"
    by (intro exI [of _ "src w (pos w)"] exI [of _ 1] exI [of _ "[]"]) simp
qed

lemma runs_randbelow: "0 < n \<Longrightarrow> runs Q (\<lambda>k. k < n) (randbelow n)"
  unfolding randbelow_def
  by (rule runs_bind [OF runs_next_raw]) (simp add: runs_ret)

lemma runs_randint: "a \<le> b \<Longrightarrow> runs Q (\<lambda>v. a \<le> v \<and> v \<le> b) (randint a b)"
proof -
  assume ab: "a \<le> b"
  then have pos: "0 < nat (b - a + 1)" by simp
  show ?thesis
    unfolding randint_def using ab
    by (auto intro!: runs_bind [OF runs_randbelow [OF pos]] runs_ret)
qed

lemma runs_random: "runs Q (\<lambda>u. 0 \<le> u \<and> u < 1) random"
  unfolding random_def
  by (rule runs_bind [OF runs_randbelow [of "2 ^ 53"]]) (auto intro!: runs_ret)

lemma runs_choice: "xs \<noteq> [] \<Longrightarrow> runs Q (\<lambda>x. x \<in> set xs) (choice xs)"
proof -
  assume ne: "xs \<noteq> []"
  then have pos: "0 < length xs" by simp
  show ?thesis
    unfolding choice_def using ne
    by (auto intro!: runs_bind [OF runs_randbelow [OF pos]] runs_ret)
qed

lemma runs_draw:
  assumes "\<not> bad_box s" "Q \<lparr>role = rl, shape = s, ink = c\<rparr>"
  shows "runs Q (\<lambda>_. True) (draw rl s c)"
  unfolding runs_def
proof (intro allI)
  fix w
  have "draw rl s c w' = (Inr (), advance w' 0 [\<lparr>role = rl, shape = s, ink = c\<rparr>])" for w'
    using assms(1) by (simp add: draw_def advance_def)
  then show "\<exists>v n new. draw rl s c w = (Inr v, advance w n new) \<and> True \<and> list_all Q new \<and>
          (\<forall>w'. same_draws n w w' \<longrightarrow> draw rl s c w' = (Inr v, advance w' n new))"
    using assms(2)
    by (intro exI [of _ "()"] exI [of _ 0] exI [of _ "[\<lparr>role = rl, shape = s, ink = c\<rparr>]"]) simp
qed

subsection \<open>Windows stay inside their building\<close>

text \<open>The box of a shape lies in the closed rectangle from \<open>(l, t)\<close> to \<open>(r, b)\<close>.\<close>

fun box_within :: "shape \<Rightarrow> int \<Rightarrow> int \<Rightarrow> int \<Rightarrow> int \<Rightarrow> bool" where
  "box_within (Line x0 y0 x1 y1 wd) l t r b =
     (l \<le> min x0 x1 \<and> max x0 x1 \<le> r \<and> t \<le> min y0 y1 \<and> max y0 y1 \<le> b)"
| "box_within (FilledRect x0 y0 x1 y1) l t r b = (l \<le> x0 \<and> x1 \<le> r \<and> t \<le> y0 \<and> y1 \<le> b)"
| "box_within (OutlineRect x0 y0 x1 y1 wd) l t r b = (l \<le> x0 \<and> x1 \<le> r \<and> t \<le> y0 \<and> y1 \<le> b)"
| "box_within (FilledEllipse x0 y0 x1 y1) l t r b = (l \<le> x0 \<and> x1 \<le> r \<and> t \<le> y0 \<and> y1 \<le> b)"
| "box_within (NewImage width height) l t r b = False"

definition is_window_of :: "int \<Rightarrow> int \<Rightarrow> int \<Rightarrow> int \<Rightarrow> call \<Rightarrow> bool" where
  "is_window_of bx by bw bh c =
     (role c = Window \<and> ink c \<in> set neon_colors \<and>
      (\<exists>row col. 0 \<le> row \<and> row < bh div 20 \<and> 0 \<le> col \<and> col < bw div 15 \<and>
         shape c = window_box bx by row col))"

lemma py_range_iff: "i \<in> set (py_range n) \<longleftrightarrow> 0 \<le> i \<and> i < n"
proof
  assume "i \<in> set (py_range n)"
  then show "0 \<le> i \<and> i < n" unfolding py_range_def by auto
next
  assume "0 \<le> i \<and> i < n"
  then have "nat i \<in> {0..<nat n}" "i = int (nat i)" by auto
  then show "i \<in> set (py_range n)" unfolding py_range_def by (metis image_eqI set_map set_upt)
qed

lemma window_box_ok: "\<not> bad_box (window_box bx by row col)"
  by (simp add: window_box_def Let_def)

lemma window_box_within:
  assumes "0 \<le> row" "row < bh div 20" "0 \<le> col" "col < bw div 15"
  shows "box_within (window_box bx by row col) bx by (bx + bw) (by + bh)"
proof -
  have "row + 1 \<le> bh div 20" "col + 1 \<le> bw div 15" using assms by simp_all
  then have "(row + 1) * 20 \<le> bh div 20 * 20" "(col + 1) * 15 \<le> bw div 15 * 15"
    by simp_all
  moreover have "bh div 20 * 20 \<le> bh" "bw div 15 * 15 \<le> bw"
    by simp_all
  ultimately have "row * 20 + 20 \<le> bh" "col * 15 + 15 \<le> bw"
    by (simp_all add: algebra_simps)
  then show ?thesis using assms by (simp add: window_box_def Let_def)
qed

lemma runs_draw_window:
  assumes "0 \<le> row" "row < bh div 20" "0 \<le> col" "col < bw div 15"
  shows "runs (is_window_of bx by bw bh) (\<lambda>_. True) (draw_window bx by row col)"
  unfolding draw_window_def
proof (rule runs_bind [OF runs_random])
  fix u :: rat
  show "runs (is_window_of bx by bw bh) (\<lambda>_. True)
          (if u > 3 / 10
           then bind (choice neon_colors) (\<lambda>color. draw Window (window_box bx by row col) color)
           else ret ())"
  proof (cases "u > 3 / 10")
    case True
    have "runs (is_window_of bx by bw bh) (\<lambda>_. True)
            (bind (choice neon_colors) (\<lambda>color. draw Window (window_box bx by row col) color))"
    proof (rule runs_bind [OF runs_choice])
      show "neon_colors \<noteq> []" by (simp add: neon_colors_def)
    next
      fix color assume "color \<in> set neon_colors"
      then show "runs (is_window_of bx by bw bh) (\<lambda>_. True)
                   (draw Window (window_box bx by row col) color)"
        using assms by (intro runs_draw window_box_ok) (auto simp: is_window_of_def)
    qed
    with True show ?thesis by simp
  next
    case False
    then show ?thesis by (simp add: runs_ret)
  qed
qed

lemma runs_draw_windows:
  "runs (is_window_of bx by bw bh) (\<lambda>_. True) (draw_windows bx by bw bh)"
  unfolding draw_windows_def Let_def
  by (intro runs_for_each runs_draw_window) (simp_all add: py_range_iff)

text \<open>
  C4.  Whatever the random source returns, every call that the windows loop of a building
  with origin \<open>(bx, by)\<close>, width \<open>bw\<close> and height \<open>bh\<close> adds to the log is a window of
  some grid cell \<open>(row, col)\<close> with \<open>row < bh // 20\<close> and \<open>col < bw // 15\<close>, drawn at
  \<open>(bx + col*15 + 5, by + row*20 + 5)\<close> with size 8 by 12, and its rectangle lies within
  the building's rectangle from \<open>(bx, by)\<close> to \<open>(bx + bw, by + bh)\<close>.
\<close>

theorem windows_inside_building:
  assumes "calls (snd (draw_windows bx by bw bh w)) = calls w @ new" and "c \<in> set new"
  shows "role c = Window \<and>
         (\<exists>row col. 0 \<le> row \<and> row < bh div 20 \<and> 0 \<le> col \<and> col < bw div 15 \<and>
            shape c = FilledRect (bx + col * 15 + 5) (by + row * 20 + 5)
                        (bx + col * 15 + 5 + 8) (by + row * 20 + 5 + 12)) \<and>
         box_within (shape c) bx by (bx + bw) (by + bh)"
proof -
  from runsD [OF runs_draw_windows [of bx "by" bw bh], of w]
  obtain v n new' where "draw_windows bx by bw bh w = (Inr v, advance w n new')"
    and all: "list_all (is_window_of bx by bw bh) new'"
    by blast
  with assms have "is_window_of bx by bw bh c" by (simp add: list_all_iff)
  then obtain row col where rc: "role c = Window" "0 \<le> row" "row < bh div 20" "0 \<le> col"
    "col < bw div 15" "shape c = window_box bx by row col"
    unfolding is_window_of_def by blast
  from window_box_within [OF rc(2-5)] rc show ?thesis
    by (auto simp: window_box_def Let_def)
qed

theorem windows_inside_building_witness:
  "calls (snd (draw_windows 100 200 15 20 (world0 (\<lambda>n. 2 ^ 53 - 1) (\<lambda>p. False)))) =
     calls (world0 (\<lambda>n. 2 ^ 53 - 1) (\<lambda>p. False)) @ [\<lparr>role = Window, shape = FilledRect 105 205 113 217, ink = [255, 0, 255]\<rparr>] \<and>
   box_within (FilledRect 105 205 113 217) 100 200 115 220"
proof -
  have run: "calls (snd (draw_windows 100 200 15 20 (world0 (\<lambda>n. 2 ^ 53 - 1) (\<lambda>p. False)))) =
     calls (world0 (\<lambda>n. 2 ^ 53 - 1) (\<lambda>p. False)) @ [\<lparr>role = Window, shape = FilledRect 105 205 113 217, ink = [255, 0, 255]\<rparr>]"
    by (simp add: draw_windows_def draw_window_def py_range_def bind_def ret_def random_def
        randbelow_def next_raw_def choice_def neon_colors_def draw_def window_box_def world0_def)
  from windows_inside_building [OF run, of "\<lparr>role = Window, shape = FilledRect 105 205 113 217, ink = [255, 0, 255]\<rparr>"]
  show ?thesis using run by simp
qed


subsection \<open>What each stage may log\<close>

text \<open>
  One predicate for each drawing call of the source: the shapes and colours it can pass
  to Pillow when the canvas variables are \<open>width\<close> and \<open>height\<close>.
\<close>

definition is_background :: "int \<Rightarrow> int \<Rightarrow> call \<Rightarrow> bool" where
  "is_background width height c =
     (role c = Background \<and>
      (\<exists>y. 0 \<le> y \<and> y < height \<and> shape c = Line 0 y width y 0 \<and>
         ink c = gradient_color height y))"

definition is_building :: "int \<Rightarrow> int \<Rightarrow> call \<Rightarrow> bool" where
  "is_building width height c =
     (role c = Building \<and>
      (\<exists>bx by bw r g b.
         0 \<le> bx \<and> bx \<le> width - 80 \<and> height div 3 \<le> by \<and> by \<le> height - 50 \<and>
         30 \<le> bw \<and> bw \<le> 80 \<and> 10 \<le> r \<and> r \<le> 30 \<and> 10 \<le> g \<and> g \<le> 30 \<and>
         10 \<le> b \<and> b \<le> 30 \<and>
         shape c = FilledRect bx by (bx + bw) (by + (height - by)) \<and> ink c = [r, g, b]))"

definition is_window :: "int \<Rightarrow> int \<Rightarrow> call \<Rightarrow> bool" where
  "is_window width height c =
     (\<exists>bx by bw.
         0 \<le> bx \<and> bx \<le> width - 80 \<and> height div 3 \<le> by \<and> by \<le> height - 50 \<and>
         30 \<le> bw \<and> bw \<le> 80 \<and> is_window_of bx by bw (height - by) c)"

definition is_car :: "int \<Rightarrow> int \<Rightarrow> call \<Rightarrow> bool" where
  "is_car width height c =
     (role c = CarBody \<and>
      (\<exists>cx cy. 0 \<le> cx \<and> cx \<le> width \<and> height div 4 \<le> cy \<and> cy \<le> height div 2 \<and>
         shape c = FilledEllipse (cx - 3) (cy - 2) (cx + 3) (cy + 2) \<and>
         ink c \<in> set car_colors))"

definition is_trail :: "int \<Rightarrow> int \<Rightarrow> call \<Rightarrow> bool" where
  "is_trail width height c =
     (role c = Trail \<and>
      (\<exists>cx cy j trail_length car_color.
         0 \<le> cx \<and> cx \<le> width \<and> height div 4 \<le> cy \<and> cy \<le> height div 2 \<and>
         15 \<le> trail_length \<and> trail_length \<le> 30 \<and> 0 \<le> j \<and> j < trail_length \<and>
         car_color \<in> set car_colors \<and>
         shape c = FilledEllipse (cx - j - 1) (cy - 1) (cx - j + 1) (cy + 1) \<and>
         ink c = trail_color car_color j trail_length))"

definition is_sign :: "int \<Rightarrow> int \<Rightarrow> call \<Rightarrow> bool" where
  "is_sign width height c =
     (role c = Sign \<and>
      (\<exists>sx sy. 50 \<le> sx \<and> sx \<le> width - 100 \<and> height div 3 \<le> sy \<and> sy \<le> height div 2 \<and>
         shape c = OutlineRect sx sy (sx + 60) (sy + 20) 2 \<and> ink c \<in> set car_colors))"

definition is_sign_glow :: "int \<Rightarrow> int \<Rightarrow> call \<Rightarrow> bool" where
  "is_sign_glow width height c =
     (role c = SignGlow \<and>
      (\<exists>sx sy glow sign_color.
         50 \<le> sx \<and> sx \<le> width - 100 \<and> height div 3 \<le> sy \<and> sy \<le> height div 2 \<and>
         0 \<le> glow \<and> glow < 3 \<and> sign_color \<in> set car_colors \<and>
         shape c = sign_glow_box sx sy glow \<and> ink c = sign_glow_color sign_color glow))"

definition is_rain :: "int \<Rightarrow> int \<Rightarrow> call \<Rightarrow> bool" where
  "is_rain width height c =
     (role c = Rain \<and>
      (\<exists>rx ry. 0 \<le> rx \<and> rx \<le> width \<and> 0 \<le> ry \<and> ry \<le> height - 50 \<and>
         shape c = Line rx ry (rx - 2) (ry + 15) 1 \<and> ink c = [100, 150, 200]))"

definition is_glow :: "int \<Rightarrow> int \<Rightarrow> call \<Rightarrow> bool" where
  "is_glow width height c =
     (role c = Glow \<and>
      (\<exists>gx gy radius r.
         0 \<le> gx \<and> gx \<le> width \<and> 0 \<le> gy \<and> gy \<le> height div 2 \<and>
         30 \<le> radius \<and> radius \<le> 80 \<and> 0 < r \<and> r \<le> radius \<and>
         shape c = FilledEllipse (gx - r) (gy - r) (gx + r) (gy + r) \<and>
         ink c = glow_color radius r))"

definition is_canvas :: "int \<Rightarrow> int \<Rightarrow> call \<Rightarrow> bool" where
  "is_canvas width height c =
     (role c = Canvas \<and> shape c = NewImage width height \<and> ink c = [10, 10, 30])"

definition is_overlay :: "int \<Rightarrow> int \<Rightarrow> call \<Rightarrow> bool" where
  "is_overlay width height c =
     (role c = Overlay \<and> shape c = NewImage width height \<and> ink c = [0, 0, 0, 0])"

definition call_spec :: "int \<Rightarrow> int \<Rightarrow> call \<Rightarrow> bool" where
  "call_spec width height c =
     (is_background width height c \<or> is_building width height c \<or>
      is_window width height c \<or> is_car width height c \<or> is_trail width height c \<or>
      is_sign width height c \<or> is_sign_glow width height c \<or> is_rain width height c \<or>
      is_glow width height c \<or> is_canvas width height c \<or> is_overlay width height c)"

lemma is_trailI:
  assumes "0 \<le> cx \<and> cx \<le> width" "height div 4 \<le> cy \<and> cy \<le> height div 2"
    "15 \<le> trail_length \<and> trail_length \<le> 30" "0 \<le> j" "j < trail_length"
    "car_color \<in> set car_colors"
  shows "is_trail width height
           \<lparr>role = Trail, shape = FilledEllipse (cx - j - 1) (cy - 1) (cx - j + 1) (cy + 1),
              ink = trail_color car_color j trail_length\<rparr>"
  unfolding is_trail_def call.select_convs using assms by blast

lemma is_sign_glowI:
  assumes "50 \<le> sx \<and> sx \<le> width - 100" "height div 3 \<le> sy \<and> sy \<le> height div 2"
    "0 \<le> glow" "glow < 3" "sign_color \<in> set car_colors"
  shows "is_sign_glow width height
           \<lparr>role = SignGlow, shape = sign_glow_box sx sy glow,
              ink = sign_glow_color sign_color glow\<rparr>"
  unfolding is_sign_glow_def call.select_convs using assms by blast

lemma is_glowI:
  assumes "0 \<le> gx \<and> gx \<le> width" "0 \<le> gy \<and> gy \<le> height div 2"
    "30 \<le> radius \<and> radius \<le> 80" "0 < r" "r \<le> radius"
  shows "is_glow width height
           \<lparr>role = Glow, shape = FilledEllipse (gx - r) (gy - r) (gx + r) (gy + r),
              ink = glow_color radius r\<rparr>"
  unfolding is_glow_def call.select_convs using assms by blast

lemma is_buildingI:
  assumes "0 \<le> bx \<and> bx \<le> width - 80" "height div 3 \<le> by \<and> by \<le> height - 50"
    "30 \<le> bw \<and> bw \<le> 80" "10 \<le> r \<and> r \<le> 30" "10 \<le> g \<and> g \<le> 30" "10 \<le> b \<and> b \<le> 30"
  shows "is_building width height
           \<lparr>role = Building, shape = FilledRect bx by (bx + bw) (by + (height - by)),
              ink = [r, g, b]\<rparr>"
  unfolding is_building_def call.select_convs using assms by blast

lemma is_carI:
  assumes "0 \<le> cx \<and> cx \<le> width" "height div 4 \<le> cy \<and> cy \<le> height div 2"
    "car_color \<in> set car_colors"
  shows "is_car width height
           \<lparr>role = CarBody, shape = FilledEllipse (cx - 3) (cy - 2) (cx + 3) (cy + 2),
              ink = car_color\<rparr>"
  unfolding is_car_def call.select_convs using assms by blast

lemma is_signI:
  assumes "50 \<le> sx \<and> sx \<le> width - 100" "height div 3 \<le> sy \<and> sy \<le> height div 2"
    "sign_color \<in> set car_colors"
  shows "is_sign width height
           \<lparr>role = Sign, shape = OutlineRect sx sy (sx + 60) (sy + 20) 2, ink = sign_color\<rparr>"
  unfolding is_sign_def call.select_convs using assms by blast

lemma is_rainI:
  assumes "0 \<le> rx \<and> rx \<le> width" "0 \<le> ry \<and> ry \<le> height - 50"
  shows "is_rain width height
           \<lparr>role = Rain, shape = Line rx ry (rx - 2) (ry + 15) 1, ink = [100, 150, 200]\<rparr>"
  unfolding is_rain_def call.select_convs using assms by blast

lemma is_backgroundI:
  assumes "0 \<le> y" "y < height"
  shows "is_background width height
           \<lparr>role = Background, shape = Line 0 y width y 0, ink = gradient_color height y\<rparr>"
  unfolding is_background_def call.select_convs using assms by blast

lemma runs_draw_gradient:
  "runs (is_background width height) (\<lambda>_. True) (draw_gradient width height)"
  unfolding draw_gradient_def
  by (intro runs_for_each runs_draw) (simp_all add: py_range_iff is_backgroundI)

lemma runs_draw_building:
  assumes "80 \<le> width" "75 \<le> height"
  shows "runs (\<lambda>c. is_building width height c \<or> is_window width height c) (\<lambda>_. True)
           (draw_building width height)"
proof -
  have h: "height div 3 \<le> height - 50" using assms(2) by simp
  have w: "0 \<le> width - 80" using assms(1) by simp
  have ten: "(10::int) \<le> 30" "(30::int) \<le> 80" by simp_all
  show ?thesis
    unfolding draw_building_def Let_def
  proof (intro runs_bind [OF runs_randint [OF w]] runs_bind [OF runs_randint [OF h]]
      runs_bind [OF runs_randint [OF ten(2)]] runs_bind [OF runs_randint [OF ten(1)]])
    fix bx "by" bw r g b :: int
    assume a: "0 \<le> bx \<and> bx \<le> width - 80" "height div 3 \<le> by \<and> by \<le> height - 50"
      "30 \<le> bw \<and> bw \<le> 80" "10 \<le> r \<and> r \<le> 30" "10 \<le> g \<and> g \<le> 30" "10 \<le> b \<and> b \<le> 30"
    show "runs (\<lambda>c. is_building width height c \<or> is_window width height c) (\<lambda>_. True)
            (bind (draw Building (FilledRect bx by (bx + bw) (by + (height - by))) [r, g, b])
               (\<lambda>_. draw_windows bx by bw (height - by)))"
    proof (rule runs_bind)
      show "runs (\<lambda>c. is_building width height c \<or> is_window width height c) (\<lambda>_. True)
              (draw Building (FilledRect bx by (bx + bw) (by + (height - by))) [r, g, b])"
        using a by (intro runs_draw disjI1 is_buildingI) simp_all
    next
      show "runs (\<lambda>c. is_building width height c \<or> is_window width height c) (\<lambda>_. True)
              (draw_windows bx by bw (height - by))"
        by (rule runs_weaken [OF runs_draw_windows]) (use a in \<open>auto simp: is_window_def\<close>)
    qed
  qed
qed


lemma car_colors_ne: "car_colors \<noteq> []"
  by (simp add: car_colors_def)

lemma runs_draw_car:
  assumes "0 \<le> width" "0 \<le> height"
  shows "runs (\<lambda>c. is_car width height c \<or> is_trail width height c) (\<lambda>_. True)
           (draw_car width height)"
proof -
  have h: "height div 4 \<le> height div 2" using assms(2) by simp
  have t: "(15::int) \<le> 30" by simp
  show ?thesis
    unfolding draw_car_def
  proof (intro runs_bind [OF runs_randint [OF assms(1)]] runs_bind [OF runs_randint [OF h]]
      runs_bind [OF runs_choice [OF car_colors_ne]])
    fix cx cy :: int and car_color :: "int list"
    assume a: "0 \<le> cx \<and> cx \<le> width" "height div 4 \<le> cy \<and> cy \<le> height div 2"
      "car_color \<in> set car_colors"
    show "runs (\<lambda>c. is_car width height c \<or> is_trail width height c) (\<lambda>_. True)
            (bind (draw CarBody (FilledEllipse (cx - 3) (cy - 2) (cx + 3) (cy + 2)) car_color)
               (\<lambda>_. bind (randint 15 30) (\<lambda>trail_length.
                  for_each (py_range trail_length) (\<lambda>j.
                    draw Trail (FilledEllipse (cx - j - 1) (cy - 1) (cx - j + 1) (cy + 1))
                      (trail_color car_color j trail_length)))))"
    proof (rule runs_bind [where R = "\<lambda>_. True"], goal_cases)
      case 1
      show "runs (\<lambda>c. is_car width height c \<or> is_trail width height c) (\<lambda>_. True)
              (draw CarBody (FilledEllipse (cx - 3) (cy - 2) (cx + 3) (cy + 2)) car_color)"
        using a by (intro runs_draw disjI1 is_carI) simp_all
    next
      case (2 u)
      show ?case
      proof (rule runs_bind [OF runs_randint [OF t]])
      fix trail_length :: int
      assume l: "15 \<le> trail_length \<and> trail_length \<le> 30"
      show "runs (\<lambda>c. is_car width height c \<or> is_trail width height c) (\<lambda>_. True)
              (for_each (py_range trail_length) (\<lambda>j.
                 draw Trail (FilledEllipse (cx - j - 1) (cy - 1) (cx - j + 1) (cy + 1))
                   (trail_color car_color j trail_length)))"
      proof (intro runs_for_each runs_draw)
        fix j assume "j \<in> set (py_range trail_length)"
        then have j: "0 \<le> j" "j < trail_length" by (simp_all add: py_range_iff)
        show "\<not> bad_box (FilledEllipse (cx - j - 1) (cy - 1) (cx - j + 1) (cy + 1))"
          by simp
        have "is_trail width height
                \<lparr>role = Trail,
                   shape = FilledEllipse (cx - j - 1) (cy - 1) (cx - j + 1) (cy + 1),
                   ink = trail_color car_color j trail_length\<rparr>"
          using a l j by (intro is_trailI) simp_all
        then show "is_car width height
                \<lparr>role = Trail,
                   shape = FilledEllipse (cx - j - 1) (cy - 1) (cx - j + 1) (cy + 1),
                   ink = trail_color car_color j trail_length\<rparr> \<or>
              is_trail width height
                \<lparr>role = Trail,
                   shape = FilledEllipse (cx - j - 1) (cy - 1) (cx - j + 1) (cy + 1),
                   ink = trail_color car_color j trail_length\<rparr>"
          by simp
      qed
      qed
    qed
  qed
qed

lemma runs_draw_sign:
  assumes "150 \<le> width" "0 \<le> height"
  shows "runs (\<lambda>c. is_sign width height c \<or> is_sign_glow width height c) (\<lambda>_. True)
           (draw_sign width height)"
proof -
  have h: "height div 3 \<le> height div 2" using assms(2) by simp
  have w: "50 \<le> width - 100" using assms(1) by simp
  show ?thesis
    unfolding draw_sign_def
  proof (intro runs_bind [OF runs_randint [OF w]] runs_bind [OF runs_randint [OF h]]
      runs_bind [OF runs_choice [OF car_colors_ne]])
    fix sx sy :: int and sign_color :: "int list"
    assume a: "50 \<le> sx \<and> sx \<le> width - 100" "height div 3 \<le> sy \<and> sy \<le> height div 2"
      "sign_color \<in> set car_colors"
    show "runs (\<lambda>c. is_sign width height c \<or> is_sign_glow width height c) (\<lambda>_. True)
            (bind (draw Sign (OutlineRect sx sy (sx + 60) (sy + 20) 2) sign_color)
               (\<lambda>_. for_each (py_range 3) (\<lambda>glow.
                  draw SignGlow (sign_glow_box sx sy glow) (sign_glow_color sign_color glow))))"
    proof (rule runs_bind)
      show "runs (\<lambda>c. is_sign width height c \<or> is_sign_glow width height c) (\<lambda>_. True)
              (draw Sign (OutlineRect sx sy (sx + 60) (sy + 20) 2) sign_color)"
        using a by (intro runs_draw disjI1 is_signI) simp_all
    next
      show "runs (\<lambda>c. is_sign width height c \<or> is_sign_glow width height c) (\<lambda>_. True)
              (for_each (py_range 3) (\<lambda>glow.
                 draw SignGlow (sign_glow_box sx sy glow) (sign_glow_color sign_color glow)))"
      proof (intro runs_for_each runs_draw)
        fix glow assume "glow \<in> set (py_range 3)"
        then have g: "0 \<le> glow" "glow < 3" by (simp_all add: py_range_iff)
        then show "\<not> bad_box (sign_glow_box sx sy glow)"
          by (simp add: sign_glow_box_def)
        have "is_sign_glow width height
                \<lparr>role = SignGlow, shape = sign_glow_box sx sy glow,
                   ink = sign_glow_color sign_color glow\<rparr>"
          using a g by (intro is_sign_glowI) simp_all
        then show "is_sign width height
                \<lparr>role = SignGlow, shape = sign_glow_box sx sy glow,
                   ink = sign_glow_color sign_color glow\<rparr> \<or>
              is_sign_glow width height
                \<lparr>role = SignGlow, shape = sign_glow_box sx sy glow,
                   ink = sign_glow_color sign_color glow\<rparr>"
          by simp
      qed
    qed
  qed
qed

lemma runs_draw_rain:
  assumes "0 \<le> width" "50 \<le> height"
  shows "runs (is_rain width height) (\<lambda>_. True) (draw_rain width height)"
proof -
  have h: "0 \<le> height - 50" using assms(2) by simp
  show ?thesis
    unfolding draw_rain_def Let_def
    by (intro runs_bind [OF runs_randint [OF assms(1)]] runs_bind [OF runs_randint [OF h]]
        runs_draw) (simp_all add: is_rainI [unfolded One_nat_def])
qed

lemma range_down5_bounds: "r \<in> set (range_down5 radius) \<Longrightarrow> 0 < r \<and> r \<le> radius"
proof (induction radius rule: range_down5.induct)
  case (1 radius)
  show ?case
  proof (cases "0 < radius")
    case True
    with "1.prems" have "r = radius \<or> r \<in> set (range_down5 (radius - 5))"
      by (subst (asm) range_down5.simps) simp
    then show ?thesis
    proof
      assume "r = radius"
      then show ?thesis using True by simp
    next
      assume "r \<in> set (range_down5 (radius - 5))"
      from "1.IH" [OF True this] show ?thesis by simp
    qed
  next
    case False
    with "1.prems" show ?thesis by (subst (asm) range_down5.simps) simp
  qed
qed

lemma runs_draw_glow:
  assumes "0 \<le> width" "0 \<le> height"
  shows "runs (is_glow width height) (\<lambda>_. True) (draw_glow width height)"
proof -
  have h: "0 \<le> height div 2" using assms(2) by simp
  have t: "(30::int) \<le> 80" by simp
  show ?thesis
    unfolding draw_glow_def
  proof (intro runs_bind [OF runs_randint [OF assms(1)]] runs_bind [OF runs_randint [OF h]]
      runs_bind [OF runs_randint [OF t]] runs_for_each runs_draw)
    fix gx gy radius r :: int
    assume a: "0 \<le> gx \<and> gx \<le> width" "0 \<le> gy \<and> gy \<le> height div 2"
      "30 \<le> radius \<and> radius \<le> 80" "r \<in> set (range_down5 radius)"
    from range_down5_bounds [OF a(4)] have r: "0 < r" "r \<le> radius" by simp_all
    then show "\<not> bad_box (FilledEllipse (gx - r) (gy - r) (gx + r) (gy + r))" by simp
    show "is_glow width height
            \<lparr>role = Glow, shape = FilledEllipse (gx - r) (gy - r) (gx + r) (gy + r),
               ink = glow_color radius r\<rparr>"
      using a r by (intro is_glowI) simp_all
  qed
qed

lemma runs_render:
  assumes "150 \<le> width" "75 \<le> height"
  shows "runs (call_spec width height) (\<lambda>_. True) (render width height)"
proof -
  have w: "80 \<le> width" "0 \<le> width" and h: "0 \<le> height" "50 \<le> height"
    using assms by simp_all
  note stages =
    runs_weaken [OF runs_draw_gradient [of width height], of "call_spec width height" "\<lambda>_. True"]
    runs_weaken [OF runs_draw_building [OF w(1) assms(2)], of "call_spec width height" "\<lambda>_. True"]
    runs_weaken [OF runs_draw_car [OF w(2) h(1)], of "call_spec width height" "\<lambda>_. True"]
    runs_weaken [OF runs_draw_sign [OF assms(1) h(1)], of "call_spec width height" "\<lambda>_. True"]
    runs_weaken [OF runs_draw_rain [OF w(2) h(2)], of "call_spec width height" "\<lambda>_. True"]
    runs_weaken [OF runs_draw_glow [OF w(2) h(1)], of "call_spec width height" "\<lambda>_. True"]
  have cv: "runs (call_spec width height) (\<lambda>_. True)
              (draw Canvas (NewImage width height) [10, 10, 30])"
    using w h by (intro runs_draw) (simp_all add: call_spec_def is_canvas_def)
  have ov: "runs (call_spec width height) (\<lambda>_. True)
              (draw Overlay (NewImage width height) [0, 0, 0, 0])"
    using w h by (intro runs_draw) (simp_all add: call_spec_def is_overlay_def)
  show ?thesis
    unfolding render_def
    by (intro runs_bind [where R = "\<lambda>_. True"] runs_for_each stages cv ov)
       (auto simp: call_spec_def)
qed

subsection \<open>The calls a computation adds, and the roles in the specification\<close>

definition logged :: "'a gen \<Rightarrow> world \<Rightarrow> call list" where
  "logged m w = drop (length (calls w)) (calls (snd (m w)))"

lemma runs_logged: "runs Q R m \<Longrightarrow> list_all Q (logged m w)"
  using runsD [of Q R m w] by (auto simp: logged_def)

lemma runs_succeeds: "runs Q R m \<Longrightarrow> \<exists>v. fst (m w) = Inr v"
  using runsD [of Q R m w] by auto

lemma spec_roles:
  "is_background width height c \<Longrightarrow> role c = Background"
  "is_building width height c \<Longrightarrow> role c = Building"
  "is_window width height c \<Longrightarrow> role c = Window"
  "is_car width height c \<Longrightarrow> role c = CarBody"
  "is_trail width height c \<Longrightarrow> role c = Trail"
  "is_sign width height c \<Longrightarrow> role c = Sign"
  "is_sign_glow width height c \<Longrightarrow> role c = SignGlow"
  "is_rain width height c \<Longrightarrow> role c = Rain"
  "is_glow width height c \<Longrightarrow> role c = Glow"
  "is_canvas width height c \<Longrightarrow> role c = Canvas"
  "is_overlay width height c \<Longrightarrow> role c = Overlay"
  unfolding is_background_def is_building_def is_window_def is_window_of_def is_car_def
    is_trail_def is_sign_def is_sign_glow_def is_rain_def is_glow_def is_canvas_def
    is_overlay_def
  by blast+

lemma spec_building: "call_spec width height c \<Longrightarrow> role c = Building \<Longrightarrow> is_building width height c"
  unfolding call_spec_def using spec_roles [of width height c] by auto

lemma list_all_filter:
  assumes "list_all P xs" "\<And>x. P x \<Longrightarrow> F x \<Longrightarrow> B x"
  shows "list_all B (filter F xs)"
  using assms by (auto simp: list_all_iff)

lemma render_512: "runs (call_spec 512 512) (\<lambda>_. True) (render 512 512)"
  by (rule runs_render) simp_all

text \<open>
  The entry function logs nothing when the directory cannot be made, and otherwise exactly
  what \<open>render 512 512\<close> logs (printing and saving draw nothing).
\<close>

lemma create_logged:
  "logged create_cyberpunk_city w =
     (if unwritable w ''ai-output'' then []
      else logged (render 512 512)
             (w\<lparr>printed := printed w @ [Creating], dirs := dirs w @ [''ai-output'']\<rparr>))"
proof -
  let ?w1 = "w\<lparr>printed := printed w @ [Creating], dirs := dirs w @ [''ai-output'']\<rparr>"
  from runsD [OF render_512, of ?w1] obtain n new where
    r: "render 512 512 ?w1 = (Inr (), advance ?w1 n new)" by auto
  show ?thesis
    using r
    by (simp add: create_cyberpunk_city_def logged_def bind_def print_def makedirs_def save_def
        ret_def Let_def advance_def)
qed

lemma create_logged_all:
  assumes "\<And>w'. list_all Q (logged (render 512 512) w')"
  shows "list_all Q (logged create_cyberpunk_city w)"
  using assms by (simp add: create_logged)

subsection \<open>Where the buildings are\<close>

text \<open>The claim as stated: the rectangle ends at the last valid column and row index.\<close>

fun inside_last_index :: "int \<Rightarrow> int \<Rightarrow> shape \<Rightarrow> bool" where
  "inside_last_index width height (FilledRect x0 y0 x1 y1) =
     (0 \<le> x0 \<and> x1 \<le> width - 1 \<and> height div 3 \<le> y0 \<and> y1 \<le> height - 1)"
| "inside_last_index width height (Line x0 y0 x1 y1 wd) = False"
| "inside_last_index width height (OutlineRect x0 y0 x1 y1 wd) = False"
| "inside_last_index width height (FilledEllipse x0 y0 x1 y1) = False"
| "inside_last_index width height (NewImage w h) = False"

text \<open>What the code keeps: the rectangle ends at \<open>width\<close> and \<open>height\<close> themselves.\<close>

fun building_bounds :: "int \<Rightarrow> int \<Rightarrow> shape \<Rightarrow> bool" where
  "building_bounds width height (FilledRect x0 y0 x1 y1) =
     (0 \<le> x0 \<and> x0 \<le> width - 80 \<and> 30 \<le> x1 - x0 \<and> x1 - x0 \<le> 80 \<and> x1 \<le> width \<and>
      height div 3 \<le> y0 \<and> y0 \<le> height - 50 \<and> y1 = height)"
| "building_bounds width height (Line x0 y0 x1 y1 wd) = False"
| "building_bounds width height (OutlineRect x0 y0 x1 y1 wd) = False"
| "building_bounds width height (FilledEllipse x0 y0 x1 y1) = False"
| "building_bounds width height (NewImage w h) = False"

lemma is_building_bounds: "is_building width height c \<Longrightarrow> building_bounds width height (shape c)"
  unfolding is_building_def by auto

text \<open>
  C3, as stated, fails.  With a random source that always returns 0 the first building is
  drawn as the rectangle from \<open>(0, 170)\<close> to \<open>(30, 512)\<close>: its bottom edge is 512, past the
  last row index 511.
\<close>

theorem building_inside_counterexample:
  "logged (draw_building 512 512) (world0 (\<lambda>n. 0) (\<lambda>p. False)) =
     [\<lparr>role = Building, shape = FilledRect 0 170 30 512, ink = [10, 10, 10]\<rparr>] \<and>
   \<not> inside_last_index 512 512 (FilledRect 0 170 30 512)"
  by (simp add: logged_def draw_building_def draw_windows_def draw_window_def py_range_def
      bind_def ret_def random_def randbelow_def randint_def next_raw_def draw_def world0_def
      upt_rec)

text \<open>
  C3, amended.  For every random source, every building rectangle that
  \<open>create_cyberpunk_city\<close> draws has its left edge in \<open>[0, width - 80]\<close>, a width in
  \<open>[30, 80]\<close>, hence its right edge at most \<open>width\<close>; its top edge in
  \<open>[height // 3, height - 50]\<close>; and its bottom edge equal to \<open>height\<close>
  (\<open>width = height = 512\<close>).  The right and bottom edges can be one past the last pixel
  index.
\<close>

theorem building_rectangle_bounds:
  "list_all (\<lambda>c. building_bounds 512 512 (shape c))
     (filter (\<lambda>c. role c = Building) (logged create_cyberpunk_city w))"
proof (rule list_all_filter [OF create_logged_all [of "call_spec 512 512"]])
  show "list_all (call_spec 512 512) (logged (render 512 512) w')" for w'
    by (rule runs_logged [OF render_512])
next
  fix c assume "call_spec 512 512 c" "role c = Building"
  then show "building_bounds 512 512 (shape c)"
    by (intro is_building_bounds spec_building)
qed

subsection \<open>Neon signs and their glow rings\<close>

definition brightness :: "int list \<Rightarrow> int" where
  "brightness c = sum_list c"

lemma length_car_colors: "length car_colors = 3"
  by (simp add: car_colors_def)

lemma py_range_3: "py_range 3 = [0, 1, 2]"
  by (simp add: py_range_def upt_rec)

text \<open>How many calls of one role a computation logs, whatever the random source.\<close>

definition count_role :: "role \<Rightarrow> call list \<Rightarrow> nat" where
  "count_role rl cs = length (filter (\<lambda>c. role c = rl) cs)"

definition logs_n :: "role \<Rightarrow> nat \<Rightarrow> 'a gen \<Rightarrow> bool" where
  "logs_n rl k m =
     (runs (\<lambda>_. True) (\<lambda>_. True) m \<and> (\<forall>w. count_role rl (logged m w) = k))"

lemma logged_seq:
  assumes "runs Q R m" "runs Q' R' f"
  shows "logged (bind m (\<lambda>_. f)) w = logged m w @ logged f (snd (m w))"
proof -
  from runsD [OF assms(1), of w] obtain v n new where
    1: "m w = (Inr v, advance w n new)" by blast
  from runsD [OF assms(2), of "advance w n new"] obtain v2 k new2 where
    2: "f (advance w n new) = (Inr v2, advance (advance w n new) k new2)" by blast
  show ?thesis
    using 1 2 by (simp add: logged_def bind_def)
qed

lemma logs_n_seq:
  assumes "logs_n rl a m" "logs_n rl b f"
  shows "logs_n rl (a + b) (bind m (\<lambda>_. f))"
proof -
  from assms have rm: "runs (\<lambda>_. True) (\<lambda>_. True) m" and rf: "runs (\<lambda>_. True) (\<lambda>_. True) f"
    and cm: "\<And>w. count_role rl (logged m w) = a" and cf: "\<And>w. count_role rl (logged f w) = b"
    unfolding logs_n_def by blast+
  have "runs (\<lambda>_. True) (\<lambda>_. True) (bind m (\<lambda>_. f))"
    by (rule runs_bind [OF rm]) (rule rf)
  moreover have "count_role rl (logged (bind m (\<lambda>_. f)) w) = a + b" for w
    unfolding logged_seq [OF rm rf]
    using cm [of w] cf [of "snd (m w)"] by (simp add: count_role_def)
  ultimately show ?thesis unfolding logs_n_def by blast
qed

lemma logs_n_for_each:
  assumes "\<And>i. i \<in> set xs \<Longrightarrow> logs_n rl k (body i)"
  shows "logs_n rl (k * length xs) (for_each xs body)"
  using assms
proof (induction xs)
  case Nil
  have "runs (\<lambda>_. True) (\<lambda>_. True) (ret ())" by (rule runs_ret) simp
  moreover have "count_role rl (logged (ret ()) w) = 0" for w
    by (simp add: logged_def ret_def count_role_def)
  ultimately show ?case by (simp add: logs_n_def)
next
  case (Cons i rest)
  have "logs_n rl (k + k * length rest) (bind (body i) (\<lambda>_. for_each rest body))"
    by (rule logs_n_seq) (simp_all add: Cons)
  then show ?case by simp
qed

lemma logs_n_none:
  assumes "runs Q R m" "\<And>c. Q c \<Longrightarrow> role c \<noteq> rl"
  shows "logs_n rl 0 m"
proof -
  have "runs (\<lambda>_. True) (\<lambda>_. True) m"
    by (rule runs_weaken [OF assms(1)]) simp_all
  moreover have "count_role rl (logged m w) = 0" for w
    using runs_logged [OF assms(1), of w] assms(2)
    by (auto simp: count_role_def list_all_iff filter_empty_conv)
  ultimately show ?thesis unfolding logs_n_def by blast
qed

lemma draw_sign_logged:
  "logged (draw_sign 512 512) w =
         [\<lparr>role = Sign, shape = OutlineRect (50 + int (src w (pos w) mod 363))
              (170 + int (src w (Suc (pos w)) mod 87))
              (50 + int (src w (pos w) mod 363) + 60)
              (170 + int (src w (Suc (pos w)) mod 87) + 20) 2,
            ink = car_colors ! (src w (Suc (Suc (pos w))) mod 3)\<rparr>,
          \<lparr>role = SignGlow, shape = OutlineRect (50 + int (src w (pos w) mod 363))
              (170 + int (src w (Suc (pos w)) mod 87))
              (50 + int (src w (pos w) mod 363) + 60)
              (170 + int (src w (Suc (pos w)) mod 87) + 20) 1,
             ink = sign_glow_color (car_colors ! (src w (Suc (Suc (pos w))) mod 3)) 0\<rparr>,
          \<lparr>role = SignGlow, shape = OutlineRect (50 + int (src w (pos w) mod 363) - 1)
              (170 + int (src w (Suc (pos w)) mod 87) - 1)
              (50 + int (src w (pos w) mod 363) + 60 + 1)
              (170 + int (src w (Suc (pos w)) mod 87) + 20 + 1) 1,
             ink = sign_glow_color (car_colors ! (src w (Suc (Suc (pos w))) mod 3)) 1\<rparr>,
          \<lparr>role = SignGlow, shape = OutlineRect (50 + int (src w (pos w) mod 363) - 2)
              (170 + int (src w (Suc (pos w)) mod 87) - 2)
              (50 + int (src w (pos w) mod 363) + 60 + 2)
              (170 + int (src w (Suc (pos w)) mod 87) + 20 + 2) 1,
             ink = sign_glow_color (car_colors ! (src w (Suc (Suc (pos w))) mod 3)) 2\<rparr>]"
  by (simp add: logged_def draw_sign_def py_range_3 bind_def ret_def randbelow_def
      randint_def choice_def car_colors_ne length_car_colors next_raw_def draw_def
      sign_glow_box_def)

lemma logs_n_draw:
  assumes "\<not> bad_box s"
  shows "logs_n rl (if rl' = rl then 1 else 0) (draw rl' s c)"
proof -
  have "runs (\<lambda>_. True) (\<lambda>_. True) (draw rl' s c)"
    using assms by (intro runs_draw) simp_all
  moreover have "count_role rl (logged (draw rl' s c) w) = (if rl' = rl then 1 else 0)" for w
    using assms by (simp add: logged_def draw_def count_role_def)
  ultimately show ?thesis unfolding logs_n_def by blast
qed

text \<open>The count of one role in a whole run, from its counts in the stages.\<close>

lemma render_counts:
  assumes "logs_n rl g (draw_gradient 512 512)" "logs_n rl b (draw_building 512 512)"
    "logs_n rl c (draw_car 512 512)" "logs_n rl s (draw_sign 512 512)"
    "logs_n rl r (draw_rain 512 512)" "logs_n rl a (draw_glow 512 512)"
  shows "logs_n rl ((if rl = Canvas then 1 else 0) + (g + (b * 15 + (c * 8 + (s * 6 +
           (r * 200 + ((if rl = Overlay then 1 else 0) + a * 10))))))) (render 512 512)"
proof -
  have len: "length (py_range 15) = 15" "length (py_range 8) = 8" "length (py_range 6) = 6"
    "length (py_range 200) = 200" "length (py_range 10) = 10"
    by (simp_all add: py_range_def)
  have cv: "logs_n rl (if Canvas = rl then 1 else 0) (draw Canvas (NewImage 512 512) [10, 10, 30])"
    by (rule logs_n_draw) simp
  have ov: "logs_n rl (if Overlay = rl then 1 else 0) (draw Overlay (NewImage 512 512) [0, 0, 0, 0])"
    by (rule logs_n_draw) simp
  have "logs_n rl ((if Canvas = rl then 1 else 0) + (g + (b * length (py_range 15) +
          (c * length (py_range 8) + (s * length (py_range 6) + (r * length (py_range 200) +
          ((if Overlay = rl then 1 else 0) + a * length (py_range 10)))))))) (render 512 512)"
    unfolding render_def
    by (intro logs_n_seq logs_n_for_each assms cv ov)
  moreover have "(if Canvas = rl then 1 else 0) = (if rl = Canvas then 1 else (0::nat))"
    "(if Overlay = rl then 1 else 0) = (if rl = Overlay then 1 else (0::nat))"
    by auto
  ultimately show ?thesis by (simp add: len)
qed

lemma stage_silent:
  assumes "rl \<noteq> Background"
  shows "rl \<noteq> Building \<Longrightarrow> rl \<noteq> Window \<Longrightarrow> logs_n rl 0 (draw_building 512 512)"
    "rl \<noteq> CarBody \<Longrightarrow> rl \<noteq> Trail \<Longrightarrow> logs_n rl 0 (draw_car 512 512)"
    "rl \<noteq> Sign \<Longrightarrow> rl \<noteq> SignGlow \<Longrightarrow> logs_n rl 0 (draw_sign 512 512)"
    "rl \<noteq> Rain \<Longrightarrow> logs_n rl 0 (draw_rain 512 512)"
    "rl \<noteq> Glow \<Longrightarrow> logs_n rl 0 (draw_glow 512 512)"
    "logs_n rl 0 (draw_gradient 512 512)"
proof -
  show "rl \<noteq> Building \<Longrightarrow> rl \<noteq> Window \<Longrightarrow> logs_n rl 0 (draw_building 512 512)"
    by (rule logs_n_none [OF runs_draw_building]) (use spec_roles in auto)
  show "rl \<noteq> CarBody \<Longrightarrow> rl \<noteq> Trail \<Longrightarrow> logs_n rl 0 (draw_car 512 512)"
    by (rule logs_n_none [OF runs_draw_car]) (use spec_roles in auto)
  show "rl \<noteq> Sign \<Longrightarrow> rl \<noteq> SignGlow \<Longrightarrow> logs_n rl 0 (draw_sign 512 512)"
    by (rule logs_n_none [OF runs_draw_sign]) (use spec_roles in auto)
  show "rl \<noteq> Rain \<Longrightarrow> logs_n rl 0 (draw_rain 512 512)"
    by (rule logs_n_none [OF runs_draw_rain]) (use spec_roles in auto)
  show "rl \<noteq> Glow \<Longrightarrow> logs_n rl 0 (draw_glow 512 512)"
    by (rule logs_n_none [OF runs_draw_glow]) (use spec_roles in auto)
  show "logs_n rl 0 (draw_gradient 512 512)"
    by (rule logs_n_none [OF runs_draw_gradient]) (use assms spec_roles in auto)
qed

lemma render_sign_counts:
  "logs_n Sign 6 (render 512 512) \<and> logs_n SignGlow 18 (render 512 512)"
proof -
  have sign_run: "runs (\<lambda>_. True) (\<lambda>_. True) (draw_sign 512 512)"
    by (rule runs_weaken [OF runs_draw_sign [of 512 512]]) simp_all
  have s1: "logs_n Sign 1 (draw_sign 512 512)"
    unfolding logs_n_def using sign_run by (simp add: draw_sign_logged count_role_def)
  have s3: "logs_n SignGlow 3 (draw_sign 512 512)"
    unfolding logs_n_def using sign_run by (simp add: draw_sign_logged count_role_def)
  from render_counts [of Sign 0 0 0 1 0 0] s1 stage_silent [of Sign]
  have "logs_n Sign 6 (render 512 512)" by simp
  moreover from render_counts [of SignGlow 0 0 0 3 0 0] s3 stage_silent [of SignGlow]
  have "logs_n SignGlow 18 (render 512 512)" by simp
  ultimately show ?thesis by blast
qed

text \<open>
  C7.  Whatever the random source returns, one sign is the outline of the rectangle from
  \<open>(sx, sy)\<close> to \<open>(sx + 60, sy + 20)\<close> followed by exactly three glow outlines (so between
  2 and 3): the first on the sign's own rectangle and each next one 1 pixel further out on
  every side than the one before.  The ring colours are the sign colour scaled by 0.8, 0.6
  and 0.4, and for each of the three sign colours the brightness falls strictly from the
  sign to ring 0, ring 1 and ring 2.  A whole run draws exactly 6 signs and 18 glow rings.
\<close>

theorem sign_glow_rings:
  "(let sx = 50 + int (src w (pos w) mod 363);
        sy = 170 + int (src w (Suc (pos w)) mod 87);
        sign_color = car_colors ! (src w (Suc (Suc (pos w))) mod 3)
    in logged (draw_sign 512 512) w =
         [\<lparr>role = Sign, shape = OutlineRect sx sy (sx + 60) (sy + 20) 2, ink = sign_color\<rparr>,
          \<lparr>role = SignGlow, shape = OutlineRect sx sy (sx + 60) (sy + 20) 1,
             ink = sign_glow_color sign_color 0\<rparr>,
          \<lparr>role = SignGlow, shape = OutlineRect (sx - 1) (sy - 1) (sx + 60 + 1) (sy + 20 + 1) 1,
             ink = sign_glow_color sign_color 1\<rparr>,
          \<lparr>role = SignGlow, shape = OutlineRect (sx - 2) (sy - 2) (sx + 60 + 2) (sy + 20 + 2) 1,
             ink = sign_glow_color sign_color 2\<rparr>]) \<and>
   2 \<le> count_role SignGlow (logged (draw_sign 512 512) w) \<and>
   count_role SignGlow (logged (draw_sign 512 512) w) \<le> 3 \<and>
   map (\<lambda>c. map (sign_glow_color c) [0, 1, 2]) car_colors =
     [[[204, 0, 204], [153, 0, 153], [102, 0, 102]],
      [[0, 204, 204], [0, 153, 153], [0, 102, 102]],
      [[204, 204, 0], [153, 153, 0], [102, 102, 0]]] \<and>
   list_all (\<lambda>c. brightness c > brightness (sign_glow_color c 0) \<and>
                 brightness (sign_glow_color c 0) > brightness (sign_glow_color c 1) \<and>
                 brightness (sign_glow_color c 1) > brightness (sign_glow_color c 2))
     car_colors \<and>
   count_role Sign (logged (render 512 512) w') = 6 \<and>
   count_role SignGlow (logged (render 512 512) w') = 18"
proof -
  have cols: "map (\<lambda>c. map (sign_glow_color c) [0, 1, 2]) car_colors =
     [[[204, 0, 204], [153, 0, 153], [102, 0, 102]],
      [[0, 204, 204], [0, 153, 153], [0, 102, 102]],
      [[204, 204, 0], [153, 153, 0], [102, 102, 0]]]"
    by (simp add: car_colors_def sign_glow_color_def py_int_def)
  have bright: "list_all (\<lambda>c. brightness c > brightness (sign_glow_color c 0) \<and>
                 brightness (sign_glow_color c 0) > brightness (sign_glow_color c 1) \<and>
                 brightness (sign_glow_color c 1) > brightness (sign_glow_color c 2))
     car_colors"
    by (simp add: car_colors_def sign_glow_color_def py_int_def brightness_def)
  have six: "count_role Sign (logged (render 512 512) w') = 6"
    "count_role SignGlow (logged (render 512 512) w') = 18"
    using render_sign_counts unfolding logs_n_def by blast+
  show ?thesis
    unfolding Let_def using cols bright six
    by (simp add: draw_sign_logged count_role_def)
qed

subsection \<open>Pillow: what a drawing call does to an image\<close>

text \<open>
  Pillow is not part of the repository; this is the part of its behaviour the claims rest
  on.  An image has a size and a pixel at every in-range coordinate.  A drawing call sets
  the pixels of its shape that lie on the image to its ink and leaves every other pixel and
  the size as they are (drawing off the image is clipped, not an error).  A line of width
  0 or 1 covers one pixel per step of its longer axis, both end points included; a box
  covers both corners; an outline covers the border band of its width; an ellipse covers
  the points of its bounding box inside the inscribed ellipse.
\<close>

record canvas =
  cw :: int
  ch :: int
  px :: "int \<Rightarrow> int \<Rightarrow> int list"

definition new_image :: "int \<Rightarrow> int \<Rightarrow> int list \<Rightarrow> canvas" where
  "new_image width height color = \<lparr>cw = width, ch = height, px = (\<lambda>x y. color)\<rparr>"

definition on_segment :: "int \<Rightarrow> int \<Rightarrow> int \<Rightarrow> int \<Rightarrow> int \<Rightarrow> int \<Rightarrow> bool" where
  "on_segment x0 y0 x1 y1 x y =
     (if \<bar>y1 - y0\<bar> \<le> \<bar>x1 - x0\<bar> then
        min x0 x1 \<le> x \<and> x \<le> max x0 x1 \<and>
        y = (if x1 = x0 then y0
             else y0 + round (of_int ((x - x0) * (y1 - y0)) / (of_int (x1 - x0) :: rat)))
      else
        min y0 y1 \<le> y \<and> y \<le> max y0 y1 \<and>
        x = x0 + round (of_int ((y - y0) * (x1 - x0)) / (of_int (y1 - y0) :: rat)))"

fun covers :: "shape \<Rightarrow> int \<Rightarrow> int \<Rightarrow> bool" where
  "covers (Line x0 y0 x1 y1 wd) x y = on_segment x0 y0 x1 y1 x y"
| "covers (FilledRect x0 y0 x1 y1) x y = (x0 \<le> x \<and> x \<le> x1 \<and> y0 \<le> y \<and> y \<le> y1)"
| "covers (OutlineRect x0 y0 x1 y1 wd) x y =
     (x0 \<le> x \<and> x \<le> x1 \<and> y0 \<le> y \<and> y \<le> y1 \<and>
      (x < x0 + int wd \<or> x1 - int wd < x \<or> y < y0 + int wd \<or> y1 - int wd < y))"
| "covers (FilledEllipse x0 y0 x1 y1) x y =
     (x0 \<le> x \<and> x \<le> x1 \<and> y0 \<le> y \<and> y \<le> y1 \<and>
      (2 * x - x0 - x1)\<^sup>2 * (y1 - y0)\<^sup>2 + (2 * y - y0 - y1)\<^sup>2 * (x1 - x0)\<^sup>2
        \<le> (x1 - x0)\<^sup>2 * (y1 - y0)\<^sup>2)"
| "covers (NewImage width height) x y = False"

definition on_canvas :: "canvas \<Rightarrow> int \<Rightarrow> int \<Rightarrow> bool" where
  "on_canvas cv x y = (0 \<le> x \<and> x < cw cv \<and> 0 \<le> y \<and> y < ch cv)"

definition paint :: "canvas \<Rightarrow> call \<Rightarrow> canvas" where
  "paint cv c =
     cv\<lparr>px := (\<lambda>x y. if on_canvas cv x y \<and> covers (shape c) x y then ink c else px cv x y)\<rparr>"

definition paint_all :: "canvas \<Rightarrow> call list \<Rightarrow> canvas" where
  "paint_all cv cs = foldl paint cv cs"

lemma paint_size [simp]: "cw (paint cv c) = cw cv" "ch (paint cv c) = ch cv"
  by (simp_all add: paint_def)

lemma paint_all_size [simp]: "cw (paint_all cv cs) = cw cv \<and> ch (paint_all cv cs) = ch cv"
  unfolding paint_all_def by (induction cs arbitrary: cv) simp_all

lemma paint_all_Nil [simp]: "paint_all cv [] = cv"
  by (simp add: paint_all_def)

lemma paint_all_Cons [simp]: "paint_all cv (c # cs) = paint_all (paint cv c) cs"
  by (simp add: paint_all_def)

lemma on_canvas_paint [simp]: "on_canvas (paint cv c) x y = on_canvas cv x y"
  by (simp add: on_canvas_def)

subsection \<open>The background gradient\<close>

lemma for_each_draw:
  assumes "\<And>i. i \<in> set xs \<Longrightarrow> \<not> bad_box (s i)"
  shows "for_each xs (\<lambda>i. draw rl (s i) (c i)) w =
           (Inr (), advance w 0 (map (\<lambda>i. \<lparr>role = rl, shape = s i, ink = c i\<rparr>) xs))"
  using assms
proof (induction xs arbitrary: w)
  case Nil
  show ?case by (simp add: ret_def)
next
  case (Cons i rest)
  have step: "draw rl (s i) (c i) w = (Inr (), advance w 0 [\<lparr>role = rl, shape = s i, ink = c i\<rparr>])"
    using Cons.prems [of i] by (simp add: draw_def advance_def)
  have "for_each rest (\<lambda>i. draw rl (s i) (c i)) (advance w 0 [\<lparr>role = rl, shape = s i, ink = c i\<rparr>]) =
          (Inr (), advance (advance w 0 [\<lparr>role = rl, shape = s i, ink = c i\<rparr>]) 0
                     (map (\<lambda>i. \<lparr>role = rl, shape = s i, ink = c i\<rparr>) rest))"
    by (rule Cons.IH) (simp add: Cons.prems)
  with step show ?case by (simp add: bind_def)
qed

lemma gradient_logged:
  "logged (draw_gradient width height) w =
     map (\<lambda>y. \<lparr>role = Background, shape = Line 0 y width y 0, ink = gradient_color height y\<rparr>)
       (py_range height)"
  unfolding draw_gradient_def logged_def
  by (subst for_each_draw) simp_all

lemma gradient_color_512:
  assumes "0 \<le> y" "y < 512"
  shows "gradient_color 512 y = [60 * (512 - y) div 512 + 20, 10, 30 + 40 * y div 512]"
proof -
  have p: "60 * (1 - of_int y / of_int 512) = (of_int (60 * (512 - y)) / of_int 512 :: rat)"
    by (simp add: field_simps)
  have b: "30 + 40 * (of_int y / of_int 512) = (of_int (30 * 512 + 40 * y) / of_int 512 :: rat)"
    by (simp add: field_simps)
  have p0: "(0::rat) \<le> of_int (60 * (512 - y)) / of_int 512" using assms by simp
  have b0: "(0::rat) \<le> of_int (30 * 512 + 40 * y) / of_int 512" using assms by simp
  have "py_int (60 * (1 - of_int y / of_int 512)) = 60 * (512 - y) div 512"
    unfolding p py_int_def using p0 by (simp only: if_True floor_divide_of_int_eq)
  moreover have "py_int (30 + 40 * (of_int y / of_int 512)) = (30 * 512 + 40 * y) div 512"
    unfolding b py_int_def using b0 by (simp only: if_True floor_divide_of_int_eq)
  moreover have "(30 * 512 + 40 * y) div 512 = 30 + 40 * y div 512"
    by simp
  ultimately show ?thesis by (simp add: gradient_color_def Let_def)
qed

lemma covers_row:
  "0 \<le> width \<Longrightarrow> covers (Line 0 y' width y' 0) x y \<longleftrightarrow> y = y' \<and> 0 \<le> x \<and> x \<le> width"
  by (auto simp: on_segment_def)

lemma paint_rows:
  assumes "0 \<le> width"
  shows "px (paint_all cv (map (\<lambda>y. \<lparr>role = rl, shape = Line 0 y width y 0, ink = f y\<rparr>) ys)) x y =
           (if y \<in> set ys \<and> on_canvas cv x y \<and> x \<le> width then f y else px cv x y)"
proof (induction ys arbitrary: cv)
  case Nil
  show ?case by simp
next
  case (Cons a ys)
  have cr: "covers (Line 0 a width a 0) u v \<longleftrightarrow> v = a \<and> 0 \<le> u \<and> u \<le> width" for u v
    using assms by (rule covers_row)
  show ?case
    by (auto simp: Cons.IH paint_def cr on_canvas_def simp del: covers.simps)
qed


lemma gradient_mono:
  assumes "0 \<le> y" "y \<le> y'" "y' < 512"
  shows "gradient_color 512 y' ! 0 \<le> gradient_color 512 y ! 0 \<and>
         gradient_color 512 y ! 2 \<le> gradient_color 512 y' ! 2"
proof -
  have "60 * (512 - y') div 512 \<le> 60 * (512 - y) div 512"
    using assms by (intro zdiv_mono1) simp_all
  moreover have "40 * y div 512 \<le> 40 * y' div 512"
    using assms by (intro zdiv_mono1) simp_all
  ultimately show ?thesis
    using assms by (simp add: gradient_color_512)
qed

text \<open>
  C5.  The gradient stage issues, for each row \<open>y\<close> from 0 to 511 in order, one line from
  \<open>(0, y)\<close> to \<open>(width, y)\<close> in the colour \<open>(purple + 20, 10, blue)\<close> with
  \<open>purple = int(60 * (1 - y/height))\<close> and \<open>blue = int(30 + 40 * (y/height))\<close>; painted on
  the new 512 x 512 image, every pixel of row \<open>y\<close> has that one colour.  The purple
  component is the integer part of a linear function of \<open>y\<close>: it is 60 at \<open>y = 0\<close>, 0 at
  the bottom row 511, and never increases; the blue component is 30 at the top, 69 at the
  bottom, and never decreases.
\<close>

theorem gradient_rows:
  "logged (draw_gradient 512 512) w =
     map (\<lambda>y. \<lparr>role = Background, shape = Line 0 y 512 y 0,
               ink = [py_int (60 * (1 - of_int y / of_int 512)) + 20, 10,
                      py_int (30 + 40 * (of_int y / of_int 512))]\<rparr>) (py_range 512) \<and>
   (\<forall>x y. 0 \<le> x \<and> x < 512 \<and> 0 \<le> y \<and> y < 512 \<longrightarrow>
      px (paint_all (new_image 512 512 [10, 10, 30]) (logged (draw_gradient 512 512) w)) x y =
        [60 * (512 - y) div 512 + 20, 10, 30 + 40 * y div 512]) \<and>
   (\<forall>y. 0 \<le> y \<and> y < 512 \<longrightarrow>
      gradient_color 512 y = [60 * (512 - y) div 512 + 20, 10, 30 + 40 * y div 512]) \<and>
   gradient_color 512 0 = [60 + 20, 10, 30] \<and>
   gradient_color 512 511 = [0 + 20, 10, 69] \<and>
   (\<forall>y y'. 0 \<le> y \<and> y \<le> y' \<and> y' < 512 \<longrightarrow>
      gradient_color 512 y' ! 0 \<le> gradient_color 512 y ! 0 \<and>
      gradient_color 512 y ! 2 \<le> gradient_color 512 y' ! 2)"
proof (intro conjI allI impI)
  show "logged (draw_gradient 512 512) w =
     map (\<lambda>y. \<lparr>role = Background, shape = Line 0 y 512 y 0,
               ink = [py_int (60 * (1 - of_int y / of_int 512)) + 20, 10,
                      py_int (30 + 40 * (of_int y / of_int 512))]\<rparr>) (py_range 512)"
    by (simp add: gradient_logged gradient_color_def Let_def)
next
  fix x y :: int
  assume a: "0 \<le> x \<and> x < 512 \<and> 0 \<le> y \<and> y < 512"
  then have "y \<in> set (py_range 512)" by (simp add: py_range_iff)
  then have "px (paint_all (new_image 512 512 [10, 10, 30]) (logged (draw_gradient 512 512) w)) x y =
          gradient_color 512 y"
    using a by (simp add: gradient_logged paint_rows on_canvas_def new_image_def)
  then show "px (paint_all (new_image 512 512 [10, 10, 30]) (logged (draw_gradient 512 512) w)) x y =
        [60 * (512 - y) div 512 + 20, 10, 30 + 40 * y div 512]"
    using a by (simp add: gradient_color_512)
next
  fix y :: int
  assume "0 \<le> y \<and> y < 512"
  then show "gradient_color 512 y = [60 * (512 - y) div 512 + 20, 10, 30 + 40 * y div 512]"
    by (simp add: gradient_color_512)
next
  show "gradient_color 512 0 = [60 + 20, 10, 30]"
    by (simp add: gradient_color_512)
next
  show "gradient_color 512 511 = [0 + 20, 10, 69]"
    by (simp add: gradient_color_512)
next
  fix y y' :: int
  assume a: "0 \<le> y \<and> y \<le> y' \<and> y' < 512"
  then show "gradient_color 512 y' ! 0 \<le> gradient_color 512 y ! 0"
    using gradient_mono [of y y'] by simp
  from a show "gradient_color 512 y ! 2 \<le> gradient_color 512 y' ! 2"
    using gradient_mono [of y y'] by simp
qed

theorem gradient_rows_witness:
  "px (paint_all (new_image 512 512 [10, 10, 30])
         (logged (draw_gradient 512 512) (world0 (\<lambda>n. 0) (\<lambda>p. False)))) 100 200 =
     [56, 10, 45] \<and>
   gradient_color 512 200 = [56, 10, 45] \<and>
   gradient_color 512 300 ! 0 \<le> gradient_color 512 200 ! 0 \<and>
   gradient_color 512 200 ! 2 \<le> gradient_color 512 300 ! 2"
proof -
  note g = gradient_rows [of "world0 (\<lambda>n. 0) (\<lambda>p. False)"]
  from g have 1: "0 \<le> (100::int) \<and> (100::int) < 512 \<and> 0 \<le> (200::int) \<and> (200::int) < 512 \<longrightarrow>
      px (paint_all (new_image 512 512 [10, 10, 30])
         (logged (draw_gradient 512 512) (world0 (\<lambda>n. 0) (\<lambda>p. False)))) 100 200 =
        [60 * (512 - 200) div 512 + 20, 10, 30 + 40 * 200 div 512]"
    by blast
  from g have 2: "0 \<le> (200::int) \<and> (200::int) < 512 \<longrightarrow>
      gradient_color 512 200 = [60 * (512 - 200) div 512 + 20, 10, 30 + 40 * 200 div 512]"
    by blast
  from g have 3: "0 \<le> (200::int) \<and> (200::int) \<le> 300 \<and> (300::int) < 512 \<longrightarrow>
      gradient_color 512 300 ! 0 \<le> gradient_color 512 200 ! 0 \<and>
      gradient_color 512 200 ! 2 \<le> gradient_color 512 300 ! 2"
    by blast
  from 1 2 3 show ?thesis by simp
qed

subsection \<open>Lit and unlit windows\<close>

text \<open>The comparison \<open>random.random() > 0.3\<close> on the raw number \<open>k\<close> behind the draw.\<close>

definition lit :: "nat \<Rightarrow> bool" where
  "lit k = ((of_nat k / 2 ^ 53 :: rat) > 3 / 10)"

lemma lit_iff: "lit k \<longleftrightarrow> 2702159776422298 \<le> k"
proof -
  have "lit k \<longleftrightarrow> (3 * 2 ^ 53 :: rat) < 10 * of_nat k"
    unfolding lit_def by (simp add: field_simps)
  also have "\<dots> \<longleftrightarrow> (of_nat (3 * 2 ^ 53) :: rat) < of_nat (10 * k)"
    by simp
  also have "\<dots> \<longleftrightarrow> 3 * 2 ^ 53 < 10 * k"
    by (rule of_nat_less_iff)
  also have "\<dots> \<longleftrightarrow> 2702159776422298 \<le> k"
    by simp arith
  finally show ?thesis .
qed

lemma lit_card: "card {k. k < 2 ^ 53 \<and> lit k} = 6305039478318694"
proof -
  have "{k. k < 2 ^ 53 \<and> lit k} = {2702159776422298..<2 ^ 53}"
    by (auto simp: lit_iff)
  then show ?thesis by simp
qed

lemma draw_window_logged:
  "logged (draw_window bx by row col) w =
     (if lit (src w (pos w) mod 2 ^ 53)
      then [\<lparr>role = Window, shape = window_box bx by row col,
              ink = neon_colors ! (src w (Suc (pos w)) mod 6)\<rparr>]
      else [])"
proof -
  have six: "length neon_colors = 6" "neon_colors \<noteq> []" by (simp_all add: neon_colors_def)
  show ?thesis
    using window_box_ok [of bx "by" row col]
    by (simp add: logged_def draw_window_def bind_def ret_def random_def randbelow_def
        next_raw_def choice_def draw_def lit_def six)
qed

text \<open>
  The rule of the specification, cell by cell.  A cell reads one raw number; if that draw
  exceeds 0.3 the cell reads a second one and gets a window in the palette colour it
  selects, otherwise it gets nothing.  \<open>windows_by_rule\<close> lists the windows the rule gives
  to a list of cells from position \<open>p\<close> of the stream, \<open>draws_by_rule\<close> counts the raw
  numbers it reads.
\<close>

fun windows_by_rule :: "(nat \<Rightarrow> nat) \<Rightarrow> nat \<Rightarrow> int \<Rightarrow> int \<Rightarrow> (int \<times> int) list \<Rightarrow> call list" where
  "windows_by_rule s p bx by [] = []"
| "windows_by_rule s p bx by ((row, col) # cells) =
     (if lit (s p mod 2 ^ 53)
      then \<lparr>role = Window, shape = window_box bx by row col,
             ink = neon_colors ! (s (Suc p) mod 6)\<rparr> # windows_by_rule s (p + 2) bx by cells
      else windows_by_rule s (Suc p) bx by cells)"

fun draws_by_rule :: "(nat \<Rightarrow> nat) \<Rightarrow> nat \<Rightarrow> (int \<times> int) list \<Rightarrow> nat" where
  "draws_by_rule s p [] = 0"
| "draws_by_rule s p (cell # cells) =
     (if lit (s p mod 2 ^ 53) then 2 + draws_by_rule s (p + 2) cells
      else 1 + draws_by_rule s (Suc p) cells)"

text \<open>The cells of a grid, row by row.\<close>

definition grid_cells :: "int \<Rightarrow> int \<Rightarrow> (int \<times> int) list" where
  "grid_cells window_rows window_cols =
     concat (map (\<lambda>row. map (\<lambda>col. (row, col)) (py_range window_cols)) (py_range window_rows))"

text \<open>
  A building of a 512 x 512 run that starts at position \<open>p\<close> of the stream: six raw numbers
  give its rectangle and colour, and the rule is applied to every cell of its grid.
\<close>

definition building_cells :: "(nat \<Rightarrow> nat) \<Rightarrow> nat \<Rightarrow> (int \<times> int) list" where
  "building_cells s p =
     grid_cells ((512 - (170 + int (s (p + 1) mod 293))) div 20)
       ((30 + int (s (p + 2) mod 51)) div 15)"

definition building_by_rule :: "(nat \<Rightarrow> nat) \<Rightarrow> nat \<Rightarrow> call list" where
  "building_by_rule s p =
     (let bx = int (s p mod 433); by = 170 + int (s (p + 1) mod 293);
          bw = 30 + int (s (p + 2) mod 51)
      in \<lparr>role = Building, shape = FilledRect bx by (bx + bw) 512,
           ink = [10 + int (s (p + 3) mod 21), 10 + int (s (p + 4) mod 21),
                  10 + int (s (p + 5) mod 21)]\<rparr> #
         windows_by_rule s (p + 6) bx by (building_cells s p))"

definition building_draws :: "(nat \<Rightarrow> nat) \<Rightarrow> nat \<Rightarrow> nat" where
  "building_draws s p = 6 + draws_by_rule s (p + 6) (building_cells s p)"

fun buildings_by_rule :: "(nat \<Rightarrow> nat) \<Rightarrow> nat \<Rightarrow> nat \<Rightarrow> call list" where
  "buildings_by_rule s p 0 = []"
| "buildings_by_rule s p (Suc n) =
     building_by_rule s p @ buildings_by_rule s (p + building_draws s p) n"

fun buildings_draws :: "(nat \<Rightarrow> nat) \<Rightarrow> nat \<Rightarrow> nat \<Rightarrow> nat" where
  "buildings_draws s p 0 = 0"
| "buildings_draws s p (Suc n) =
     building_draws s p + buildings_draws s (p + building_draws s p) n"


lemma bind_assoc: "bind (bind m f) g = bind m (\<lambda>v. bind (f v) g)"
proof
  fix w show "bind (bind m f) g w = bind m (\<lambda>v. bind (f v) g) w"
    by (cases "m w" rule: prod.exhaust; cases "fst (m w)") (auto simp: bind_def)
qed

lemma bind_ret: "bind (ret v) f = f v"
  by (rule ext) (simp add: bind_def ret_def)

lemma for_each_append:
  "for_each (xs @ ys) body = bind (for_each xs body) (\<lambda>_. for_each ys body)"
  by (induction xs) (simp_all add: bind_ret bind_assoc)

lemma for_each_map: "for_each (map g xs) body = for_each xs (\<lambda>i. body (g i))"
  by (induction xs) simp_all

text \<open>The two nested loops visit the cells of the grid row by row.\<close>

lemma for_each_nested:
  "for_each rows (\<lambda>row. for_each cols (\<lambda>col. body row col)) =
   for_each (concat (map (\<lambda>row. map (\<lambda>col. (row, col)) cols) rows))
     (\<lambda>cell. body (fst cell) (snd cell))"
  by (induction rows) (simp_all add: for_each_append for_each_map)

lemma draw_window_exact:
  "draw_window bx by row col w =
     (Inr (), advance w (if lit (src w (pos w) mod 2 ^ 53) then 2 else 1)
        (if lit (src w (pos w) mod 2 ^ 53)
         then [\<lparr>role = Window, shape = window_box bx by row col,
                 ink = neon_colors ! (src w (Suc (pos w)) mod 6)\<rparr>]
         else []))"
proof -
  have six: "length neon_colors = 6" "neon_colors \<noteq> []" by (simp_all add: neon_colors_def)
  show ?thesis
    using window_box_ok [of bx "by" row col]
    by (simp add: draw_window_def bind_def ret_def random_def randbelow_def
        next_raw_def choice_def draw_def lit_def six advance_def)
qed

lemma cells_exact:
  "for_each cells (\<lambda>cell. draw_window bx by (fst cell) (snd cell)) w =
     (Inr (), advance w (draws_by_rule (src w) (pos w) cells)
        (windows_by_rule (src w) (pos w) bx by cells))"
proof (induction cells arbitrary: w)
  case Nil
  show ?case by (simp add: ret_def)
next
  case (Cons cell cells)
  obtain row col where cell: "cell = (row, col)" by (cases cell)
  let ?k = "if lit (src w (pos w) mod 2 ^ 53) then 2 else 1 :: nat"
  let ?new = "if lit (src w (pos w) mod 2 ^ 53)
         then [\<lparr>role = Window, shape = window_box bx by row col,
                 ink = neon_colors ! (src w (Suc (pos w)) mod 6)\<rparr>]
         else []"
  have "for_each (cell # cells) (\<lambda>cell. draw_window bx by (fst cell) (snd cell)) w =
        for_each cells (\<lambda>cell. draw_window bx by (fst cell) (snd cell)) (advance w ?k ?new)"
    by (simp only: for_each.simps bind_def cell fst_conv snd_conv
        draw_window_exact [of bx "by" row col w] prod.case sum.case)
  also have "\<dots> = (Inr (), advance (advance w ?k ?new)
        (draws_by_rule (src (advance w ?k ?new)) (pos (advance w ?k ?new)) cells)
        (windows_by_rule (src (advance w ?k ?new)) (pos (advance w ?k ?new)) bx by cells))"
    by (rule Cons.IH)
  also have "\<dots> = (Inr (), advance w (draws_by_rule (src w) (pos w) (cell # cells))
        (windows_by_rule (src w) (pos w) bx by (cell # cells)))"
    by (simp add: cell)
  finally show ?case .
qed

lemma draw_windows_exact:
  "draw_windows bx by bw bh w =
     (Inr (), advance w (draws_by_rule (src w) (pos w) (grid_cells (bh div 20) (bw div 15)))
        (windows_by_rule (src w) (pos w) bx by (grid_cells (bh div 20) (bw div 15))))"
  by (simp add: draw_windows_def Let_def for_each_nested cells_exact grid_cells_def)

lemma draw_building_exact:
  "draw_building 512 512 w =
     (Inr (), advance w (building_draws (src w) (pos w)) (building_by_rule (src w) (pos w)))"
proof -
  let ?s = "src w" and ?p = "pos w"
  let ?bx = "int (?s ?p mod 433)"
  let ?by = "170 + int (?s (?p + 1) mod 293)"
  let ?bw = "30 + int (?s (?p + 2) mod 51)"
  let ?b = "\<lparr>role = Building, shape = FilledRect ?bx ?by (?bx + ?bw) 512,
             ink = [10 + int (?s (?p + 3) mod 21), 10 + int (?s (?p + 4) mod 21),
                    10 + int (?s (?p + 5) mod 21)]\<rparr>"
  have "?s (Suc ?p) mod 293 < 293" by simp
  then have bound: "\<not> 342 < ?s (Suc ?p) mod 293" by linarith
  have pk: "?p + 2 = Suc (Suc ?p)" "?p + 3 = Suc (Suc (Suc ?p))"
    "?p + 4 = Suc (Suc (Suc (Suc ?p)))" "?p + 5 = Suc (Suc (Suc (Suc (Suc ?p))))"
    "?p + 6 = Suc (Suc (Suc (Suc (Suc (Suc ?p)))))"
    by simp_all
  have b: "draw_building 512 512 w = draw_windows ?bx ?by ?bw (512 - ?by) (advance w 6 [?b])"
    by (simp add: draw_building_def bind_def ret_def randint_def randbelow_def next_raw_def
        draw_def advance_def Let_def bound pk)
  show ?thesis
    by (simp add: b draw_windows_exact building_draws_def building_by_rule_def
        building_cells_def Let_def)
qed

lemma buildings_exact:
  "for_each xs (\<lambda>i. draw_building 512 512) w =
     (Inr (), advance w (buildings_draws (src w) (pos w) (length xs))
        (buildings_by_rule (src w) (pos w) (length xs)))"
proof (induction xs arbitrary: w)
  case Nil
  show ?case by (simp add: ret_def)
next
  case (Cons i xs)
  let ?w = "advance w (building_draws (src w) (pos w)) (building_by_rule (src w) (pos w))"
  have "for_each (i # xs) (\<lambda>i. draw_building 512 512) w =
        for_each xs (\<lambda>i. draw_building 512 512) ?w"
    by (simp only: for_each.simps bind_def draw_building_exact [of w] prod.case sum.case)
  also have "\<dots> = (Inr (), advance ?w (buildings_draws (src ?w) (pos ?w) (length xs))
        (buildings_by_rule (src ?w) (pos ?w) (length xs)))"
    by (rule Cons.IH)
  also have "\<dots> = (Inr (), advance w (buildings_draws (src w) (pos w) (length (i # xs)))
        (buildings_by_rule (src w) (pos w) (length (i # xs))))"
    by simp
  finally show ?case .
qed

lemma windows_by_rule_roles: "list_all (\<lambda>c. role c = Window) (windows_by_rule s p bx by cells)"
  by (induction s p bx "by" cells rule: windows_by_rule.induct) simp_all

lemma building_by_rule_roles:
  "filter (\<lambda>c. role c = Building \<or> role c = Window) (building_by_rule s p) = building_by_rule s p"
  "length (filter (\<lambda>c. role c = Building) (building_by_rule s p)) = 1"
proof -
  have w: "\<forall>c \<in> set (windows_by_rule s q bx by cells). role c = Window" for q bx "by" cells
    using windows_by_rule_roles [of s q bx "by" cells] by (simp add: list_all_iff)
  show "filter (\<lambda>c. role c = Building \<or> role c = Window) (building_by_rule s p) =
          building_by_rule s p"
    using w by (auto simp: building_by_rule_def Let_def filter_id_conv)
  have "filter (\<lambda>c. role c = Building) (windows_by_rule s q bx by cells) = []" for q bx "by" cells
    using w [of q bx "by" cells] by (auto simp: filter_empty_conv)
  then show "length (filter (\<lambda>c. role c = Building) (building_by_rule s p)) = 1"
    by (simp add: building_by_rule_def Let_def)
qed

lemma buildings_by_rule_roles:
  "filter (\<lambda>c. role c = Building \<or> role c = Window) (buildings_by_rule s p n) =
     buildings_by_rule s p n"
  "length (filter (\<lambda>c. role c = Building) (buildings_by_rule s p n)) = n"
  by (induction n arbitrary: p) (simp_all add: building_by_rule_roles)

lemma runs_after_buildings:
  "runs (\<lambda>c. role c \<noteq> Building \<and> role c \<noteq> Window) (\<lambda>_. True)
     (bind (for_each (py_range 8) (\<lambda>i. draw_car 512 512)) (\<lambda>_.
      bind (for_each (py_range 6) (\<lambda>i. draw_sign 512 512)) (\<lambda>_.
      bind (for_each (py_range 200) (\<lambda>i. draw_rain 512 512)) (\<lambda>_.
      bind (draw Overlay (NewImage 512 512) [0, 0, 0, 0]) (\<lambda>_.
      for_each (py_range 10) (\<lambda>i. draw_glow 512 512))))))"
proof -
  let ?Q = "\<lambda>c. role c \<noteq> Building \<and> role c \<noteq> Window"
  have ov: "runs ?Q (\<lambda>_. True) (draw Overlay (NewImage 512 512) [0, 0, 0, 0])"
    by (intro runs_draw) simp_all
  have car: "runs ?Q (\<lambda>_. True) (draw_car 512 512)"
    by (rule runs_weaken [OF runs_draw_car [of 512 512]]) (use spec_roles in auto)
  have sign: "runs ?Q (\<lambda>_. True) (draw_sign 512 512)"
    by (rule runs_weaken [OF runs_draw_sign [of 512 512]]) (use spec_roles in auto)
  have rain: "runs ?Q (\<lambda>_. True) (draw_rain 512 512)"
    by (rule runs_weaken [OF runs_draw_rain [of 512 512]]) (use spec_roles in auto)
  have glow: "runs ?Q (\<lambda>_. True) (draw_glow 512 512)"
    by (rule runs_weaken [OF runs_draw_glow [of 512 512]]) (use spec_roles in auto)
  show ?thesis
    by (intro runs_bind [where R = "\<lambda>_. True"] runs_for_each ov car sign rain glow)
qed

text \<open>
  The buildings and windows of a whole run, in order, are those the rule gives to fifteen
  buildings in a row, read from the position at which the run starts.
\<close>

lemma render_buildings:
  "filter (\<lambda>c. role c = Building \<or> role c = Window) (logged (render 512 512) w) =
     buildings_by_rule (src w) (pos w) 15"
proof -
  let ?G = "map (\<lambda>y. \<lparr>role = Background, shape = Line 0 y 512 y 0,
                        ink = gradient_color 512 y\<rparr>) (py_range 512)"
  let ?c = "\<lparr>role = Canvas, shape = NewImage 512 512, ink = [10, 10, 30]\<rparr>"
  let ?B = "buildings_by_rule (src w) (pos w) 15"
  let ?n = "buildings_draws (src w) (pos w) 15"
  let ?w0 = "advance w 0 [?c]"
  let ?w1 = "advance w 0 (?c # ?G)"
  let ?w2 = "advance w ?n (?c # ?G @ ?B)"
  have c: "draw Canvas (NewImage 512 512) [10, 10, 30] w = (Inr (), ?w0)"
    by (simp add: draw_def advance_def)
  have "draw_gradient 512 512 ?w0 = (Inr (), advance ?w0 0 ?G)"
    unfolding draw_gradient_def by (rule for_each_draw) simp
  then have g: "draw_gradient 512 512 ?w0 = (Inr (), ?w1)"
    by simp
  have len: "length (py_range 15) = 15" by (simp add: py_range_def)
  have b: "for_each (py_range 15) (\<lambda>i. draw_building 512 512) ?w1 = (Inr (), ?w2)"
    by (simp add: buildings_exact len)
  define later where "later =
    bind (for_each (py_range 8) (\<lambda>i. draw_car 512 512)) (\<lambda>_.
      bind (for_each (py_range 6) (\<lambda>i. draw_sign 512 512)) (\<lambda>_.
      bind (for_each (py_range 200) (\<lambda>i. draw_rain 512 512)) (\<lambda>_.
      bind (draw Overlay (NewImage 512 512) [0, 0, 0, 0]) (\<lambda>_.
      for_each (py_range 10) (\<lambda>i. draw_glow 512 512)))))"
  have rd: "render 512 512 =
      bind (draw Canvas (NewImage 512 512) [10, 10, 30]) (\<lambda>_.
      bind (draw_gradient 512 512) (\<lambda>_.
        bind (for_each (py_range 15) (\<lambda>i. draw_building 512 512)) (\<lambda>_. later)))"
    by (simp add: render_def later_def)
  from runsD [OF runs_after_buildings, of ?w2]
  obtain n3 new3 where ls: "later ?w2 = (Inr (), advance ?w2 n3 new3)"
    and q: "list_all (\<lambda>c. role c \<noteq> Building \<and> role c \<noteq> Window) new3"
    unfolding later_def by auto
  have "render 512 512 w = (Inr (), advance ?w2 n3 new3)"
    by (simp only: rd bind_def c g b ls prod.case sum.case)
  then have lg: "logged (render 512 512) w = ?c # ?G @ ?B @ new3"
    by (simp add: logged_def)
  have f3: "filter (\<lambda>c. role c = Building \<or> role c = Window) new3 = []"
    using q by (auto simp: filter_empty_conv list_all_iff)
  have fg: "filter (\<lambda>c. role c = Building \<or> role c = Window) ?G = []"
    by (simp add: filter_empty_conv)
  define G where "G = ?G"
  define B where "B = ?B"
  have "filter (\<lambda>c. role c = Building \<or> role c = Window) (?c # G @ B @ new3) = B"
    using fg f3 buildings_by_rule_roles(1) [of "src w" "pos w" 15]
    by (simp add: G_def [symmetric] B_def [symmetric])
  then show ?thesis
    by (simp only: lg G_def B_def)
qed

lemma grid_cells_set:
  "set (grid_cells window_rows window_cols) =
     {(row, col). 0 \<le> row \<and> row < window_rows \<and> 0 \<le> col \<and> col < window_cols}"
  by (auto simp: grid_cells_def py_range_iff)

lemma grid_cells_distinct: "distinct (grid_cells window_rows window_cols)"
proof -
  have "concat (map (\<lambda>row. map (\<lambda>col. (row, col)) cols) rows) = List.product rows cols"
    for rows cols :: "int list"
    by (induction rows) simp_all
  moreover have "distinct (py_range n)" for n
    by (simp add: py_range_def distinct_map)
  ultimately show ?thesis
    by (simp add: grid_cells_def distinct_product)
qed



text \<open>
  C6.  In the windows stage a cell's window is drawn exactly when the draw
  \<open>random.random()\<close> exceeds 0.3.  \<open>random.random()\<close> is \<open>k / 2^53\<close> for a raw number
  \<open>k\<close> below \<open>2^53\<close>; of these equally likely values 6305039478318694 exceed 0.3, a
  share within \<open>2^-53\<close> of 0.7.  A drawn window is filled with
  \<open>neon_colors[r mod 6]\<close> for the next raw number \<open>r\<close>; the palette has exactly six
  colours, all different, one for each residue.  A window that is not drawn issues no
  call, so painting leaves the cell as the building's rectangle coloured it; and a drawn
  window stays inside its own 15 by 20 cell.

  The loop of a building applies this rule to every cell of its grid, once, row by row,
  each cell reading the raw numbers that follow those of the cell before; and the
  buildings and windows of a whole run are exactly those of fifteen buildings treated so,
  one after the other.
\<close>

theorem window_lit_and_colour:
  "logged (draw_window bx by row col) w =
     (if (of_nat (src w (pos w) mod 2 ^ 53) / 2 ^ 53 :: rat) > 3 / 10
      then [\<lparr>role = Window,
              shape = FilledRect (bx + col * 15 + 5) (by + row * 20 + 5)
                        (bx + col * 15 + 5 + 8) (by + row * 20 + 5 + 12),
              ink = neon_colors ! (src w (Suc (pos w)) mod 6)\<rparr>]
      else []) \<and>
   card {k. k < 2 ^ 53 \<and> (of_nat k / 2 ^ 53 :: rat) > 3 / 10} = 6305039478318694 \<and>
   \<bar>6305039478318694 / 2 ^ 53 - 7 / 10\<bar> < (1 / 2 ^ 53 :: rat) \<and>
   length neon_colors = 6 \<and> distinct neon_colors \<and>
   list_all (\<lambda>c. length (filter (\<lambda>i. neon_colors ! i = c) [0..<6]) = 1) neon_colors \<and>
   (\<not> (of_nat (src w (pos w) mod 2 ^ 53) / 2 ^ 53 :: rat) > 3 / 10 \<longrightarrow>
      paint_all cv (logged (draw_window bx by row col) w) = cv) \<and>
   box_within (window_box bx by row col)
     (bx + col * 15) (by + row * 20) (bx + col * 15 + 14) (by + row * 20 + 19) \<and>
   logged (draw_windows bx by bw bh) w =
     windows_by_rule (src w) (pos w) bx by (grid_cells (bh div 20) (bw div 15)) \<and>
   set (grid_cells (bh div 20) (bw div 15)) =
     {(r, c). 0 \<le> r \<and> r < bh div 20 \<and> 0 \<le> c \<and> c < bw div 15} \<and>
   distinct (grid_cells (bh div 20) (bw div 15)) \<and>
   windows_by_rule s p bx by ((row, col) # cells) =
     (if (of_nat (s p mod 2 ^ 53) / 2 ^ 53 :: rat) > 3 / 10
      then \<lparr>role = Window,
             shape = FilledRect (bx + col * 15 + 5) (by + row * 20 + 5)
                       (bx + col * 15 + 5 + 8) (by + row * 20 + 5 + 12),
             ink = neon_colors ! (s (p + 1) mod 6)\<rparr> # windows_by_rule s (p + 2) bx by cells
      else windows_by_rule s (p + 1) bx by cells) \<and>
   filter (\<lambda>c. role c = Building \<or> role c = Window) (logged (render 512 512) w) =
     buildings_by_rule (src w) (pos w) 15 \<and>
   count_role Building (logged (render 512 512) w) = 15"
proof -
  have a: "logged (draw_window bx by row col) w =
     (if (of_nat (src w (pos w) mod 2 ^ 53) / 2 ^ 53 :: rat) > 3 / 10
      then [\<lparr>role = Window,
              shape = FilledRect (bx + col * 15 + 5) (by + row * 20 + 5)
                        (bx + col * 15 + 5 + 8) (by + row * 20 + 5 + 12),
              ink = neon_colors ! (src w (Suc (pos w)) mod 6)\<rparr>]
      else [])"
    using draw_window_logged [of bx "by" row col w]
    by (simp add: lit_def window_box_def Let_def)
  have b: "card {k. k < 2 ^ 53 \<and> (of_nat k / 2 ^ 53 :: rat) > 3 / 10} = 6305039478318694"
    using lit_card by (simp add: lit_def)
  have c: "\<bar>6305039478318694 / 2 ^ 53 - 7 / 10\<bar> < (1 / 2 ^ 53 :: rat)"
    by simp
  have d: "length neon_colors = 6 \<and> distinct neon_colors"
    by (simp add: neon_colors_def)
  have e: "list_all (\<lambda>c. length (filter (\<lambda>i. neon_colors ! i = c) [0..<6]) = 1) neon_colors"
    by (simp add: neon_colors_def upt_rec)
  have f: "\<not> (of_nat (src w (pos w) mod 2 ^ 53) / 2 ^ 53 :: rat) > 3 / 10 \<longrightarrow>
      paint_all cv (logged (draw_window bx by row col) w) = cv"
    by (simp add: a)
  have g: "box_within (window_box bx by row col)
     (bx + col * 15) (by + row * 20) (bx + col * 15 + 14) (by + row * 20 + 19)"
    by (simp add: window_box_def Let_def)
  have h: "logged (draw_windows bx by bw bh) w =
     windows_by_rule (src w) (pos w) bx by (grid_cells (bh div 20) (bw div 15))"
    by (simp add: logged_def draw_windows_exact)
  have i: "set (grid_cells (bh div 20) (bw div 15)) =
     {(r, c). 0 \<le> r \<and> r < bh div 20 \<and> 0 \<le> c \<and> c < bw div 15}"
    by (rule grid_cells_set)
  have j: "distinct (grid_cells (bh div 20) (bw div 15))"
    by (rule grid_cells_distinct)
  have k: "windows_by_rule s p bx by ((row, col) # cells) =
     (if (of_nat (s p mod 2 ^ 53) / 2 ^ 53 :: rat) > 3 / 10
      then \<lparr>role = Window,
             shape = FilledRect (bx + col * 15 + 5) (by + row * 20 + 5)
                       (bx + col * 15 + 5 + 8) (by + row * 20 + 5 + 12),
             ink = neon_colors ! (s (p + 1) mod 6)\<rparr> # windows_by_rule s (p + 2) bx by cells
      else windows_by_rule s (p + 1) bx by cells)"
    by (simp add: lit_def window_box_def Let_def)
  have l: "filter (\<lambda>c. role c = Building \<or> role c = Window) (logged (render 512 512) w) =
     buildings_by_rule (src w) (pos w) 15"
    by (rule render_buildings)
  have "filter (\<lambda>c. role c = Building) (logged (render 512 512) w) =
        filter (\<lambda>c. role c = Building)
          (filter (\<lambda>c. role c = Building \<or> role c = Window) (logged (render 512 512) w))"
    by (simp add: conj_commute cong: conj_cong)
  then have m: "count_role Building (logged (render 512 512) w) = 15"
    by (simp only: count_role_def l buildings_by_rule_roles)
  from a b c d e f g h i j k l m show ?thesis by blast
qed

theorem window_lit_and_colour_witness:
  "\<not> (of_nat (src (world0 (\<lambda>n. if n = 0 then 0 else if n = 3 then 5 else 2 ^ 53 - n) (\<lambda>p. False))
                (pos (world0 (\<lambda>n. if n = 0 then 0 else if n = 3 then 5 else 2 ^ 53 - n)
                        (\<lambda>p. False))) mod 2 ^ 53) / 2 ^ 53 :: rat) > 3 / 10 \<and>
   paint_all (new_image 4 4 [10, 10, 30])
     (logged (draw_window 100 200 0 0)
        (world0 (\<lambda>n. if n = 0 then 0 else if n = 3 then 5 else 2 ^ 53 - n) (\<lambda>p. False))) =
     new_image 4 4 [10, 10, 30] \<and>
   logged (draw_windows 100 200 30 40)
     (world0 (\<lambda>n. if n = 0 then 0 else if n = 3 then 5 else 2 ^ 53 - n) (\<lambda>p. False)) =
     [\<lparr>role = Window, shape = FilledRect 120 205 128 217, ink = [0, 255, 255]\<rparr>,
      \<lparr>role = Window, shape = FilledRect 120 225 128 237, ink = [0, 255, 100]\<rparr>]"
proof -
  let ?w = "world0 (\<lambda>n. if n = 0 then 0 else if n = 3 then 5 else 2 ^ 53 - n) (\<lambda>p. False)"
  have unlit: "\<not> (of_nat (src ?w (pos ?w) mod 2 ^ 53) / 2 ^ 53 :: rat) > 3 / 10"
    by (simp add: world0_def)
  have cells: "grid_cells 2 2 = [(0, 0), (0, 1), (1, 0), (1, 1)]"
    by (simp add: grid_cells_def py_range_def upt_rec)
  note inst = window_lit_and_colour [of 100 200 0 0 ?w "new_image 4 4 [10, 10, 30]" 30 40]
  from inst have "\<not> (of_nat (src ?w (pos ?w) mod 2 ^ 53) / 2 ^ 53 :: rat) > 3 / 10 \<longrightarrow>
      paint_all (new_image 4 4 [10, 10, 30]) (logged (draw_window 100 200 0 0) ?w) =
        new_image 4 4 [10, 10, 30]"
    by blast
  with unlit have p: "paint_all (new_image 4 4 [10, 10, 30])
      (logged (draw_window 100 200 0 0) ?w) = new_image 4 4 [10, 10, 30]"
    by blast
  from inst have "logged (draw_windows 100 200 30 40) ?w =
      windows_by_rule (src ?w) (pos ?w) 100 200 (grid_cells (40 div 20) (30 div 15))"
    by blast
  then have q: "logged (draw_windows 100 200 30 40) ?w =
     [\<lparr>role = Window, shape = FilledRect 120 205 128 217, ink = [0, 255, 255]\<rparr>,
      \<lparr>role = Window, shape = FilledRect 120 225 128 237, ink = [0, 255, 100]\<rparr>]"
    by (simp add: cells world0_def lit_iff window_box_def neon_colors_def)
  from unlit p q show ?thesis by blast
qed


subsection \<open>Pillow: the overlay, compositing and the filters\<close>

text \<open>
  Source lines 107 to 137.  The drawing calls with role \<open>Glow\<close> go to a transparent RGBA
  overlay, all others to the RGB image created with colour \<open>(10, 10, 30)\<close>.
  \<open>Image.alpha_composite\<close> puts the overlay over the image: per channel the rounded value
  of \<open>overlay * a + base * (1 - a)\<close> with \<open>a = alpha / 255\<close>.  A filter (\<open>GaussianBlur\<close>,
  \<open>UnsharpMask\<close>) computes one value per pixel and channel from the image and stores it
  clipped to 8 bits; what it computes is a parameter here.
\<close>

definition base_image :: "int \<Rightarrow> int \<Rightarrow> call list \<Rightarrow> canvas" where
  "base_image width height cs =
     paint_all (new_image width height [10, 10, 30]) (filter (\<lambda>c. role c \<noteq> Glow) cs)"

definition glow_layer :: "int \<Rightarrow> int \<Rightarrow> call list \<Rightarrow> canvas" where
  "glow_layer width height cs =
     paint_all (new_image width height [0, 0, 0, 0]) (filter (\<lambda>c. role c = Glow) cs)"

definition blend :: "int \<Rightarrow> int \<Rightarrow> int \<Rightarrow> int" where
  "blend a ov base =
     round ((of_int ov * of_int a + of_int base * (255 - of_int a)) / (255 :: rat))"

definition over_pixel :: "int list \<Rightarrow> int list \<Rightarrow> int list" where
  "over_pixel ov base = map (\<lambda>(v, b). blend (ov ! 3) v b) (zip (take 3 ov) base)"

definition alpha_composite :: "canvas \<Rightarrow> canvas \<Rightarrow> canvas" where
  "alpha_composite im overlay = im\<lparr>px := (\<lambda>x y. over_pixel (px overlay x y) (px im x y))\<rparr>"

definition clip8 :: "int \<Rightarrow> int" where
  "clip8 v = max 0 (min 255 v)"

definition apply_filter :: "(canvas \<Rightarrow> int \<Rightarrow> int \<Rightarrow> int list) \<Rightarrow> canvas \<Rightarrow> canvas" where
  "apply_filter f im = im\<lparr>px := (\<lambda>x y. map clip8 (f im x y))\<rparr>"

text \<open>The two images that are saved: the blurred composite and its sharpened copy.\<close>

definition final_images ::
  "(canvas \<Rightarrow> int \<Rightarrow> int \<Rightarrow> int list) \<Rightarrow> (canvas \<Rightarrow> int \<Rightarrow> int \<Rightarrow> int list) \<Rightarrow> call list
     \<Rightarrow> canvas \<times> canvas" where
  "final_images blur unsharp cs =
     (let img = alpha_composite (base_image 512 512 cs) (glow_layer 512 512 cs);
          img = apply_filter blur img;
          enhanced_img = apply_filter unsharp img
      in (img, enhanced_img))"

subsection \<open>Channel values stay within 0 to 255\<close>

definition byte :: "int \<Rightarrow> bool" where
  "byte v = (0 \<le> v \<and> v \<le> 255)"

definition bytes :: "int list \<Rightarrow> bool" where
  "bytes c = list_all byte c"

lemma py_int_bounds:
  assumes "0 \<le> x" "x \<le> of_int n"
  shows "0 \<le> py_int x \<and> py_int x \<le> n"
proof -
  have "\<lfloor>x\<rfloor> \<le> \<lfloor>(of_int n :: rat)\<rfloor>" using assms(2) by (rule floor_mono)
  then show ?thesis using assms(1) by (simp add: py_int_def)
qed

lemma car_color_cases:
  "c \<in> set car_colors \<Longrightarrow> c = [255, 0, 255] \<or> c = [0, 255, 255] \<or> c = [255, 255, 0]"
  by (simp add: car_colors_def)

lemma bytes_background:
  assumes "is_background 512 512 c"
  shows "bytes (ink c)"
proof -
  from assms obtain y where y: "0 \<le> y" "y < 512" "ink c = gradient_color 512 y"
    unfolding is_background_def by blast
  have "0 \<le> 60 * (512 - y) div 512" "60 * (512 - y) div 512 \<le> 60"
       "0 \<le> 40 * y div 512" "40 * y div 512 \<le> 40"
    using y(1,2) by simp_all
  then show ?thesis
    using y by (simp add: gradient_color_512 bytes_def byte_def)
qed

lemma bytes_building: "is_building width height c \<Longrightarrow> bytes (ink c)"
  unfolding is_building_def by (auto simp: bytes_def byte_def)

lemma bytes_window: "is_window width height c \<Longrightarrow> bytes (ink c)"
  unfolding is_window_def is_window_of_def
  by (auto simp: bytes_def byte_def neon_colors_def)

lemma bytes_car: "is_car width height c \<Longrightarrow> bytes (ink c)"
  unfolding is_car_def by (auto simp: bytes_def byte_def dest!: car_color_cases)

lemma bytes_sign: "is_sign width height c \<Longrightarrow> bytes (ink c)"
  unfolding is_sign_def by (auto simp: bytes_def byte_def dest!: car_color_cases)

lemma bytes_rain: "is_rain width height c \<Longrightarrow> bytes (ink c)"
  unfolding is_rain_def by (auto simp: bytes_def byte_def)

lemma trail_channel:
  assumes "0 \<le> j" "j < trail_length" "v = 0 \<or> v = 255"
  shows "byte (py_int (of_int v * (1 - of_int j / of_int trail_length) * (1 / 2)))"
proof -
  have l: "(0::rat) < of_int trail_length" using assms by simp
  have "(of_int j / of_int trail_length :: rat) \<le> 1" using assms l by simp
  moreover have "(0::rat) \<le> of_int j / of_int trail_length" using assms l by simp
  ultimately have a: "(0::rat) \<le> 1 - of_int j / of_int trail_length"
    "(1 - of_int j / of_int trail_length :: rat) \<le> 1" by simp_all
  have v: "(0::rat) \<le> of_int v" "(of_int v :: rat) \<le> 255" using assms(3) by auto
  have lo: "(0::rat) \<le> of_int v * (1 - of_int j / of_int trail_length) * (1 / 2)"
    using a v by simp
  have "of_int v * (1 - of_int j / of_int trail_length) \<le> (of_int v :: rat) * 1"
    using a(2) v(1) by (rule mult_left_mono)
  then have hi: "of_int v * (1 - of_int j / of_int trail_length) * (1 / 2) \<le> (of_int 255 :: rat)"
    using v by simp
  from py_int_bounds [OF lo hi] show ?thesis by (simp add: byte_def)
qed

lemma bytes_trail:
  assumes "is_trail width height c"
  shows "bytes (ink c)"
proof -
  from assms obtain j trail_length car_color where t: "0 \<le> j" "j < trail_length"
    "car_color \<in> set car_colors" "ink c = trail_color car_color j trail_length"
    unfolding is_trail_def by blast
  have z: "byte (py_int (of_int v * (1 - of_int j / of_int trail_length) * (1 / 2)))"
    if "v = 0 \<or> v = 255" for v
    using t(1,2) that by (rule trail_channel)
  from car_color_cases [OF t(3)] show ?thesis
    using z [of 0] z [of 255]
    by (auto simp: t(4) trail_color_def Let_def bytes_def)
qed

lemma bytes_sign_glow:
  assumes "is_sign_glow width height c"
  shows "bytes (ink c)"
proof -
  from assms obtain glow sign_color where g: "0 \<le> glow" "glow < 3"
    "sign_color \<in> set car_colors" "ink c = sign_glow_color sign_color glow"
    unfolding is_sign_glow_def by blast
  from g(1,2) have "glow = 0 \<or> glow = 1 \<or> glow = 2" by auto
  with car_color_cases [OF g(3)] show ?thesis
    by (auto simp: g(4) sign_glow_color_def py_int_def bytes_def byte_def)
qed

lemma bytes_glow:
  assumes "is_glow width height c"
  shows "bytes (ink c)"
proof -
  from assms obtain radius r where g: "30 \<le> radius" "0 < r" "r \<le> radius"
    "ink c = glow_color radius r"
    unfolding is_glow_def by blast
  have rp: "(0::rat) < of_int radius" using g by simp
  have lo: "(0::rat) \<le> of_int (30 * (radius - r)) / of_int radius"
    using g by simp
  have "30 * (radius - r) \<le> 30 * radius" using g by simp
  then have "(of_int (30 * (radius - r)) :: rat) \<le> of_int (30 * radius)"
    by (simp only: of_int_le_iff)
  then have hi: "(of_int (30 * (radius - r)) / of_int radius :: rat) \<le> of_int 30"
    using rp by (simp add: field_simps)
  from py_int_bounds [OF lo hi] show ?thesis
    by (simp add: g(4) glow_color_def Let_def bytes_def byte_def)
qed

lemma bytes_new_image:
  "is_canvas width height c \<Longrightarrow> bytes (ink c)" "is_overlay width height c \<Longrightarrow> bytes (ink c)"
  by (simp_all add: is_canvas_def is_overlay_def bytes_def byte_def)

lemma bytes_call_spec: "call_spec 512 512 c \<Longrightarrow> bytes (ink c)"
  unfolding call_spec_def
  by (auto intro: bytes_background bytes_building bytes_window bytes_car bytes_trail bytes_sign
      bytes_sign_glow bytes_rain bytes_glow bytes_new_image)

lemma paint_all_inv:
  assumes "list_all (\<lambda>c. (\<forall>w h. shape c \<noteq> NewImage w h) \<longrightarrow> P (ink c)) cs"
    "\<And>x y. P (px cv x y)"
  shows "P (px (paint_all cv cs) x y)"
  using assms
proof (induction cs arbitrary: cv)
  case Nil
  then show ?case by simp
next
  case (Cons c cs)
  have "P (px (paint cv c) u v)" for u v
    using Cons.prems by (cases "shape c") (auto simp: paint_def)
  with Cons show ?case by simp
qed

lemma blend_byte:
  assumes "byte a" "byte ov" "byte base"
  shows "byte (blend a ov base)"
proof -
  have a: "(0::rat) \<le> of_int a" "(of_int a :: rat) \<le> 255" using assms(1) by (simp_all add: byte_def)
  have ov: "(0::rat) \<le> of_int ov" "(of_int ov :: rat) \<le> 255" using assms(2) by (simp_all add: byte_def)
  have b: "(0::rat) \<le> of_int base" "(of_int base :: rat) \<le> 255" using assms(3) by (simp_all add: byte_def)
  let ?s = "(of_int ov * of_int a + of_int base * (255 - of_int a) :: rat)"
  have lo: "0 \<le> ?s" using a ov b by simp
  have "of_int ov * of_int a \<le> (255 :: rat) * of_int a"
    using ov(2) a(1) by (rule mult_right_mono)
  moreover have "of_int base * (255 - of_int a) \<le> (255 :: rat) * (255 - of_int a)"
    using b(2) a(2) by (intro mult_right_mono) simp_all
  ultimately have hi: "?s \<le> 255 * 255" by (simp add: algebra_simps)
  define q where "q = ?s / 255"
  have q: "0 \<le> q" "q \<le> 255" using lo hi by (simp_all add: q_def)
  then have "0 \<le> q + 1 / 2" "q + 1 / 2 < of_int 256" by simp_all
  then have "0 \<le> \<lfloor>q + 1 / 2\<rfloor>" "\<lfloor>q + 1 / 2\<rfloor> < 256"
    by (simp_all only: zero_le_floor floor_less_iff)
  then have "0 \<le> round q" "round q \<le> 255" by (simp_all add: round_def)
  then show ?thesis by (simp add: blend_def byte_def q_def)
qed


text \<open>An RGB pixel has three channels, an RGBA pixel four, each within 0 to 255.\<close>

definition rgb :: "int list \<Rightarrow> bool" where
  "rgb p = (length p = 3 \<and> bytes p)"

definition rgba :: "int list \<Rightarrow> bool" where
  "rgba p = (length p = 4 \<and> bytes p)"

lemma ink_length:
  assumes "call_spec width height c"
  shows "length (ink c) = (if role c = Glow \<or> role c = Overlay then 4 else 3)"
proof -
  have cc: "length v = 3" if "v \<in> set car_colors" for v
    using car_color_cases [OF that] by auto
  have nc: "length v = 3" if "v \<in> set neon_colors" for v
    using that by (auto simp: neon_colors_def)
  from assms show ?thesis
    unfolding call_spec_def is_background_def is_building_def is_window_def is_window_of_def
      is_car_def is_trail_def is_sign_def is_sign_glow_def is_rain_def is_glow_def
      is_canvas_def is_overlay_def
    by (auto simp: gradient_color_def trail_color_def sign_glow_color_def glow_color_def
        Let_def cc nc)
qed

lemma ink_pixel:
  "call_spec 512 512 c \<Longrightarrow>
     (if role c = Glow \<or> role c = Overlay then rgba (ink c) else rgb (ink c))"
  by (simp add: rgb_def rgba_def ink_length bytes_call_spec)

lemma overlay_shape: "call_spec width height c \<Longrightarrow> role c = Overlay \<Longrightarrow> shape c = NewImage width height"
  unfolding call_spec_def using spec_roles [of width height c]
  by (auto simp: is_overlay_def)

lemma base_image_rgb:
  assumes "list_all (call_spec 512 512) cs"
  shows "rgb (px (base_image 512 512 (take n cs)) x y)"
  unfolding base_image_def
proof (rule paint_all_inv)
  show "list_all (\<lambda>c. (\<forall>w h. shape c \<noteq> NewImage w h) \<longrightarrow> rgb (ink c))
          (filter (\<lambda>c. role c \<noteq> Glow) (take n cs))"
    unfolding list_all_iff
  proof (intro ballI impI)
    fix c assume c: "c \<in> set (filter (\<lambda>c. role c \<noteq> Glow) (take n cs))"
      and sh: "\<forall>w h. shape c \<noteq> NewImage w h"
    from c have spec: "call_spec 512 512 c" and ng: "role c \<noteq> Glow"
      using assms by (auto simp: list_all_iff dest!: in_set_takeD)
    from sh overlay_shape [OF spec] have "role c \<noteq> Overlay" by blast
    with ink_pixel [OF spec] ng show "rgb (ink c)" by simp
  qed
  show "rgb (px (new_image 512 512 [10, 10, 30]) u v)" for u v
    by (simp add: new_image_def rgb_def bytes_def byte_def)
qed

lemma glow_layer_rgba:
  assumes "list_all (call_spec 512 512) cs"
  shows "rgba (px (glow_layer 512 512 (take n cs)) x y)"
  unfolding glow_layer_def
proof (rule paint_all_inv)
  show "list_all (\<lambda>c. (\<forall>w h. shape c \<noteq> NewImage w h) \<longrightarrow> rgba (ink c))
          (filter (\<lambda>c. role c = Glow) (take n cs))"
    using assms ink_pixel by (auto simp: list_all_iff dest!: in_set_takeD)
  show "rgba (px (new_image 512 512 [0, 0, 0, 0]) u v)" for u v
    by (simp add: new_image_def rgba_def bytes_def byte_def)
qed

lemma over_pixel_rgb:
  assumes "rgba ov" "rgb base"
  shows "rgb (over_pixel ov base)"
proof -
  from assms(1) obtain r g b a where ov: "ov = [r, g, b, a]"
    unfolding rgba_def by (auto simp: length_Suc_conv numeral_eq_Suc)
  from assms(2) obtain r' g' b' where base: "base = [r', g', b']"
    unfolding rgb_def by (auto simp: length_Suc_conv numeral_eq_Suc)
  show ?thesis
    using assms unfolding ov base rgb_def rgba_def bytes_def over_pixel_def
    by (simp add: blend_byte)
qed

lemma clip8_byte: "byte (clip8 v)"
  by (simp add: clip8_def byte_def)

lemma filter_bytes: "bytes (px (apply_filter f im) x y)"
  by (simp add: apply_filter_def bytes_def list_all_iff clip8_byte)

text \<open>
  C1.  For every random source: every colour that \<open>create_cyberpunk_city\<close> computes and
  passes to a drawing call (gradient, building, window, car, trail, sign, glow ring, rain,
  atmospheric glow with its alpha) has all its channels within 0 to 255; after every
  drawing call, hence after every stage, every pixel of the image is an RGB triple within
  that range and every pixel of the overlay an RGBA quadruple within it; so is every pixel
  after alpha compositing; and so is every pixel of the blurred image and of its sharpened
  copy, whatever the two filters compute, since they store their results clipped.
\<close>

theorem channels_within_byte_range:
  "list_all (\<lambda>c. bytes (ink c)) (logged create_cyberpunk_city w) \<and>
   (\<forall>n x y. rgb (px (base_image 512 512 (take n (logged create_cyberpunk_city w))) x y)) \<and>
   (\<forall>n x y. rgba (px (glow_layer 512 512 (take n (logged create_cyberpunk_city w))) x y)) \<and>
   (\<forall>x y. rgb (px (alpha_composite (base_image 512 512 (logged create_cyberpunk_city w))
                      (glow_layer 512 512 (logged create_cyberpunk_city w))) x y)) \<and>
   (\<forall>x y. bytes (px (fst (final_images blur unsharp (logged create_cyberpunk_city w))) x y) \<and>
          bytes (px (snd (final_images blur unsharp (logged create_cyberpunk_city w))) x y))"
proof -
  let ?cs = "logged create_cyberpunk_city w"
  have spec: "list_all (call_spec 512 512) ?cs"
    by (rule create_logged_all) (rule runs_logged [OF render_512])
  have a: "list_all (\<lambda>c. bytes (ink c)) ?cs"
    using spec bytes_call_spec by (auto simp: list_all_iff)
  have b: "rgb (px (base_image 512 512 (take n ?cs)) x y)" for n x y
    by (rule base_image_rgb [OF spec])
  have c: "rgba (px (glow_layer 512 512 (take n ?cs)) x y)" for n x y
    by (rule glow_layer_rgba [OF spec])
  have d: "rgb (px (alpha_composite (base_image 512 512 ?cs) (glow_layer 512 512 ?cs)) x y)"
    for x y
    using b [of "length ?cs" x y] c [of "length ?cs" x y]
    by (simp add: alpha_composite_def over_pixel_rgb)
  have e: "bytes (px (fst (final_images blur unsharp ?cs)) x y) \<and>
           bytes (px (snd (final_images blur unsharp ?cs)) x y)" for x y
    by (simp add: final_images_def Let_def filter_bytes)
  from a b c d e show ?thesis by blast
qed

subsection \<open>Drawing off the canvas, and the size of the canvas\<close>

lemma paint_all_clip: "\<not> on_canvas cv x y \<Longrightarrow> px (paint_all cv cs) x y = px cv x y"
proof (induction cs arbitrary: cv)
  case Nil
  show ?case by simp
next
  case (Cons c cs)
  from Cons.prems have "\<not> on_canvas (paint cv c) x y" by simp
  then have "px (paint_all (paint cv c) cs) x y = px (paint cv c) x y" by (rule Cons.IH)
  with Cons.prems show ?case by (simp add: paint_def)
qed

lemma render_succeeds:
  assumes "150 \<le> width" "75 \<le> height"
  shows "fst (render width height w) = Inr ()"
  using runs_succeeds [OF runs_render [OF assms], of w] by simp

lemma image_size:
  "cw (base_image width height cs) = width \<and> ch (base_image width height cs) = height \<and>
   cw (glow_layer width height cs) = width \<and> ch (glow_layer width height cs) = height"
  by (simp add: base_image_def glow_layer_def new_image_def)

text \<open>
  C10.  Drawing calls are issued with coordinates off the 512 x 512 canvas: when the
  random source returns 512 the car's centre is \<open>cx = 512\<close> (the range of
  \<open>randint(0, width)\<close> includes \<open>width\<close>) and its ellipse reaches \<open>x = 515\<close>; when it
  returns 0 the rain streak runs from \<open>(0, 0)\<close> to \<open>(-2, 15)\<close>.  For every random source
  the drawing stages never raise, the image and the overlay stay 512 x 512, painting any
  calls leaves the size of an image unchanged and changes no pixel off the canvas.
\<close>

theorem offcanvas_drawing_is_clipped:
  "logged (draw_car 512 512) (world0 (\<lambda>n. 512) u) ! 0 =
     \<lparr>role = CarBody, shape = FilledEllipse 509 251 515 255, ink = [255, 255, 0]\<rparr> \<and>
   logged (draw_rain 512 512) (world0 (\<lambda>n. 0) u) =
     [\<lparr>role = Rain, shape = Line 0 0 (- 2) 15 1, ink = [100, 150, 200]\<rparr>] \<and>
   fst (render 512 512 w) = Inr () \<and>
   cw (base_image 512 512 (logged (render 512 512) w)) = 512 \<and>
   ch (base_image 512 512 (logged (render 512 512) w)) = 512 \<and>
   cw (glow_layer 512 512 (logged (render 512 512) w)) = 512 \<and>
   ch (glow_layer 512 512 (logged (render 512 512) w)) = 512 \<and>
   (\<forall>cv cs. cw (paint_all cv cs) = cw cv \<and> ch (paint_all cv cs) = ch cv) \<and>
   (\<forall>cv cs x y. \<not> on_canvas cv x y \<longrightarrow> px (paint_all cv cs) x y = px cv x y)"
proof -
  have car: "logged (draw_car 512 512) (world0 (\<lambda>n. 512) u) ! 0 =
     \<lparr>role = CarBody, shape = FilledEllipse 509 251 515 255, ink = [255, 255, 0]\<rparr>"
    by (simp add: logged_def draw_car_def bind_def ret_def randint_def randbelow_def
        next_raw_def choice_def car_colors_def draw_def world0_def py_range_def upt_rec)
  have rain: "logged (draw_rain 512 512) (world0 (\<lambda>n. 0) u) =
     [\<lparr>role = Rain, shape = Line 0 0 (- 2) 15 1, ink = [100, 150, 200]\<rparr>]"
    by (simp add: logged_def draw_rain_def bind_def ret_def randint_def randbelow_def
        next_raw_def draw_def world0_def)
  have ok: "fst (render 512 512 w) = Inr ()"
    by (rule render_succeeds) simp_all
  show ?thesis
    using car rain ok image_size [of 512 512 "logged (render 512 512) w"] paint_all_clip
    by (simp only: paint_all_size simp_thms) blast
qed

theorem offcanvas_drawing_is_clipped_witness:
  "\<not> on_canvas (new_image 512 512 [10, 10, 30]) (- 1) 8 \<and>
   covers (Line 0 0 (- 2) 15 1) (- 1) 8 \<and>
   px (paint_all (new_image 512 512 [10, 10, 30])
         [\<lparr>role = Rain, shape = Line 0 0 (- 2) 15 1, ink = [100, 150, 200]\<rparr>]) (- 1) 8 =
     px (new_image 512 512 [10, 10, 30]) (- 1) 8"
proof -
  have off: "\<not> on_canvas (new_image 512 512 [10, 10, 30]) (- 1) 8"
    by (simp add: on_canvas_def)
  have fl: "\<lfloor>- (17 / 30) :: rat\<rfloor> = - 1"
    by (rule floor_unique) simp_all
  have cov: "covers (Line 0 0 (- 2) 15 1) (- 1) 8"
    by (simp add: on_segment_def round_def fl)
  from offcanvas_drawing_is_clipped [of "\<lambda>p. False" "world0 (\<lambda>n. 0) (\<lambda>p. False)"]
  have "\<not> on_canvas (new_image 512 512 [10, 10, 30]) (- 1) 8 \<longrightarrow>
        px (paint_all (new_image 512 512 [10, 10, 30])
         [\<lparr>role = Rain, shape = Line 0 0 (- 2) 15 1, ink = [100, 150, 200]\<rparr>]) (- 1) 8 =
        px (new_image 512 512 [10, 10, 30]) (- 1) 8"
    by blast
  with off cov show ?thesis by blast
qed

subsection \<open>What a failing run leaves behind\<close>

definition output_path :: string where
  "output_path = ''ai-output/cyberpunk-city.png''"

definition enhanced_path :: string where
  "enhanced_path = ''ai-output/cyberpunk-city-enhanced.png''"

lemma render_frame:
  "\<exists>n new. render 512 512 w = (Inr (), advance w n new)"
  using runsD [OF render_512, of w] by auto

lemma main_outcome:
  "files (main w) =
     (if unwritable w ''ai-output'' \<or> unwritable w output_path then files w
      else if unwritable w enhanced_path then files w @ [output_path]
      else files w @ [output_path, enhanced_path]) \<and>
   printed (main w) = printed w @
     (if unwritable w ''ai-output'' \<or> unwritable w output_path
      then [Creating, ErrorCreating OSError, Traceback]
      else if unwritable w enhanced_path
      then [Creating, SavedTo output_path, ErrorCreating OSError, Traceback]
      else [Creating, SavedTo output_path, EnhancedSavedTo enhanced_path, Success,
            GeneratedFiles, PathLine output_path, PathLine enhanced_path]) \<and>
   (fst (create_cyberpunk_city w) = Inl OSError \<longleftrightarrow>
      unwritable w ''ai-output'' \<or> unwritable w output_path \<or> unwritable w enhanced_path) \<and>
   (fst (create_cyberpunk_city w) = Inr (output_path, enhanced_path) \<longleftrightarrow>
      \<not> (unwritable w ''ai-output'' \<or> unwritable w output_path \<or> unwritable w enhanced_path))"
proof -
  let ?w1 = "w\<lparr>printed := printed w @ [Creating], dirs := dirs w @ [''ai-output'']\<rparr>"
  from render_frame [of ?w1] obtain n new where
    r: "render 512 512 ?w1 = (Inr (), advance ?w1 n new)" by blast
  show ?thesis
    using r
    by (simp add: main_def create_cyberpunk_city_def bind_def print_def makedirs_def save_def
        ret_def Let_def advance_def output_path_def enhanced_path_def)
qed

text \<open>
  C8, as stated, fails.  When the file system accepts everything but the enhanced file,
  the run fails with \<open>OSError\<close> after the base file has been written and announced: the
  base file stays on disk.
\<close>

theorem partial_artifact_counterexample:
  "fst (create_cyberpunk_city (world0 (\<lambda>n. 0) (\<lambda>p. p = ''ai-output/cyberpunk-city-enhanced.png'')))
     = Inl OSError \<and>
   files (main (world0 (\<lambda>n. 0) (\<lambda>p. p = ''ai-output/cyberpunk-city-enhanced.png''))) =
     [''ai-output/cyberpunk-city.png''] \<and>
   printed (main (world0 (\<lambda>n. 0) (\<lambda>p. p = ''ai-output/cyberpunk-city-enhanced.png''))) =
     [Creating, SavedTo ''ai-output/cyberpunk-city.png'', ErrorCreating OSError, Traceback]"
  using main_outcome [of "world0 (\<lambda>n. 0) (\<lambda>p. p = ''ai-output/cyberpunk-city-enhanced.png'')"]
  by (simp add: world0_def output_path_def enhanced_path_def)

text \<open>
  C8, amended.  The entry point fails exactly when the directory or one of the two files
  cannot be written.  It then prints the error message and the trace and no success
  summary.  It removes nothing: when the directory or the base file fails, no file has
  been written; when the enhanced file fails, the base file has been written and
  announced and stays on disk.
\<close>

theorem failure_leaves_written_files:
  "files (main w) =
     (if unwritable w ''ai-output'' \<or> unwritable w ''ai-output/cyberpunk-city.png''
      then files w
      else if unwritable w ''ai-output/cyberpunk-city-enhanced.png''
      then files w @ [''ai-output/cyberpunk-city.png'']
      else files w @ [''ai-output/cyberpunk-city.png'', ''ai-output/cyberpunk-city-enhanced.png'']) \<and>
   printed (main w) = printed w @
     (if unwritable w ''ai-output'' \<or> unwritable w ''ai-output/cyberpunk-city.png''
      then [Creating, ErrorCreating OSError, Traceback]
      else if unwritable w ''ai-output/cyberpunk-city-enhanced.png''
      then [Creating, SavedTo ''ai-output/cyberpunk-city.png'', ErrorCreating OSError, Traceback]
      else [Creating, SavedTo ''ai-output/cyberpunk-city.png'',
            EnhancedSavedTo ''ai-output/cyberpunk-city-enhanced.png'', Success, GeneratedFiles,
            PathLine ''ai-output/cyberpunk-city.png'',
            PathLine ''ai-output/cyberpunk-city-enhanced.png'']) \<and>
   (fst (create_cyberpunk_city w) = Inl OSError \<longleftrightarrow>
      unwritable w ''ai-output'' \<or> unwritable w ''ai-output/cyberpunk-city.png'' \<or>
      unwritable w ''ai-output/cyberpunk-city-enhanced.png'')"
  using main_outcome [of w] by (simp add: output_path_def enhanced_path_def)

subsection \<open>The output depends on the state of the random module\<close>

lemma runs_buildings_tail:
  "runs (call_spec 512 512) (\<lambda>_. True)
     (for_each (map int [1..<15]) (\<lambda>i. draw_building 512 512))"
  by (intro runs_for_each runs_weaken [OF runs_draw_building [of 512 512]])
     (auto simp: call_spec_def)

lemma runs_later_stages:
  "runs (call_spec 512 512) (\<lambda>_. True)
     (bind (for_each (py_range 8) (\<lambda>i. draw_car 512 512)) (\<lambda>_.
      bind (for_each (py_range 6) (\<lambda>i. draw_sign 512 512)) (\<lambda>_.
      bind (for_each (py_range 200) (\<lambda>i. draw_rain 512 512)) (\<lambda>_.
      bind (draw Overlay (NewImage 512 512) [0, 0, 0, 0]) (\<lambda>_.
      for_each (py_range 10) (\<lambda>i. draw_glow 512 512))))))"
proof -
  have ov: "runs (call_spec 512 512) (\<lambda>_. True) (draw Overlay (NewImage 512 512) [0, 0, 0, 0])"
    by (intro runs_draw) (simp_all add: call_spec_def is_overlay_def)
  note stages = ov
    runs_weaken [OF runs_draw_car [of 512 512], of "call_spec 512 512" "\<lambda>_. True"]
    runs_weaken [OF runs_draw_sign [of 512 512], of "call_spec 512 512" "\<lambda>_. True"]
    runs_weaken [OF runs_draw_rain [of 512 512], of "call_spec 512 512" "\<lambda>_. True"]
    runs_weaken [OF runs_draw_glow [of 512 512], of "call_spec 512 512" "\<lambda>_. True"]
  show ?thesis
    by (intro runs_bind [where R = "\<lambda>_. True"] runs_for_each stages)
       (auto simp: call_spec_def)
qed

text \<open>The raw number that the \<open>k\<close>-th next call of the random module will read.\<close>

definition peek :: "world \<Rightarrow> nat \<Rightarrow> nat" where
  "peek w k = src w (pos w + k)"

text \<open>
  The first 514 calls of a run: the new image, the 512 gradient lines and then the first
  building, whose rectangle and colour are read off the first six raw numbers.
\<close>

lemma render_first_building:
  "\<exists>more. logged (render 512 512) w =
     \<lparr>role = Canvas, shape = NewImage 512 512, ink = [10, 10, 30]\<rparr> #
     map (\<lambda>y. \<lparr>role = Background, shape = Line 0 y 512 y 0, ink = gradient_color 512 y\<rparr>)
       (py_range 512) @
     \<lparr>role = Building,
       shape = FilledRect (int (peek w 0 mod 433))
                 (170 + int (peek w 1 mod 293))
                 (int (peek w 0 mod 433) + (30 + int (peek w 2 mod 51))) 512,
       ink = [10 + int (peek w 3 mod 21), 10 + int (peek w 4 mod 21),
              10 + int (peek w 5 mod 21)]\<rparr> # more"
proof -
  let ?G = "map (\<lambda>y. \<lparr>role = Background, shape = Line 0 y 512 y 0,
                        ink = gradient_color 512 y\<rparr>) (py_range 512)"
  let ?bx = "int (peek w 0 mod 433)"
  let ?by = "170 + int (peek w 1 mod 293)"
  let ?bw = "30 + int (peek w 2 mod 51)"
  let ?b = "\<lparr>role = Building, shape = FilledRect ?bx ?by (?bx + ?bw) 512,
             ink = [10 + int (peek w 3 mod 21), 10 + int (peek w 4 mod 21),
                    10 + int (peek w 5 mod 21)]\<rparr>"
  let ?c = "\<lparr>role = Canvas, shape = NewImage 512 512, ink = [10, 10, 30]\<rparr>"
  let ?w0 = "advance w 0 [?c]"
  let ?w1 = "advance w 0 (?c # ?G)"
  let ?w2 = "advance w 6 (?c # ?G @ [?b])"
  have c: "draw Canvas (NewImage 512 512) [10, 10, 30] w = (Inr (), ?w0)"
    by (simp add: draw_def advance_def)
  have "draw_gradient 512 512 ?w0 = (Inr (), advance ?w0 0 ?G)"
    unfolding draw_gradient_def by (rule for_each_draw) simp
  then have g: "draw_gradient 512 512 ?w0 = (Inr (), ?w1)"
    by (simp add: advance_def)
  have pk: "src w (pos w) = peek w 0" "src w (Suc (pos w)) = peek w 1"
    "src w (Suc (Suc (pos w))) = peek w 2" "src w (Suc (Suc (Suc (pos w)))) = peek w 3"
    "src w (Suc (Suc (Suc (Suc (pos w))))) = peek w 4"
    "src w (Suc (Suc (Suc (Suc (Suc (pos w)))))) = peek w 5"
    "Suc (Suc (Suc (Suc (Suc (Suc (pos w)))))) = pos w + 6"
    by (simp_all add: peek_def eval_nat_numeral)
  have "peek w (Suc 0) mod 293 < 293" by simp
  then have bound: "\<not> 342 < peek w (Suc 0) mod 293" by linarith
  have b: "draw_building 512 512 ?w1 = draw_windows ?bx ?by ?bw (512 - ?by) ?w2"
    by (simp add: draw_building_def bind_def ret_def randint_def randbelow_def next_raw_def
        draw_def advance_def Let_def pk bound)
  from runsD [OF runs_draw_windows, of ?bx ?by ?bw "512 - ?by" ?w2]
  obtain n1 new1 where dw: "draw_windows ?bx ?by ?bw (512 - ?by) ?w2 = (Inr (), advance ?w2 n1 new1)"
    by auto
  from runsD [OF runs_buildings_tail, of "advance ?w2 n1 new1"]
  obtain n2 new2 where bt: "for_each (map int [1..<15]) (\<lambda>i. draw_building 512 512)
      (advance ?w2 n1 new1) = (Inr (), advance (advance ?w2 n1 new1) n2 new2)"
    by auto
  define later where "later =
    bind (for_each (py_range 8) (\<lambda>i. draw_car 512 512)) (\<lambda>_.
      bind (for_each (py_range 6) (\<lambda>i. draw_sign 512 512)) (\<lambda>_.
      bind (for_each (py_range 200) (\<lambda>i. draw_rain 512 512)) (\<lambda>_.
      bind (draw Overlay (NewImage 512 512) [0, 0, 0, 0]) (\<lambda>_.
      for_each (py_range 10) (\<lambda>i. draw_glow 512 512)))))"
  have rd: "render 512 512 =
      bind (draw Canvas (NewImage 512 512) [10, 10, 30]) (\<lambda>_.
      bind (draw_gradient 512 512) (\<lambda>_.
        bind (for_each (py_range 15) (\<lambda>i. draw_building 512 512)) (\<lambda>_. later)))"
    by (simp add: render_def later_def)
  from runsD [OF runs_later_stages, of "advance (advance ?w2 n1 new1) n2 new2"]
  obtain n3 new3 where ls:
    "later (advance (advance ?w2 n1 new1) n2 new2) =
     (Inr (), advance (advance (advance ?w2 n1 new1) n2 new2) n3 new3)"
    unfolding later_def by auto
  have r15: "py_range 15 = 0 # map int [1..<15]"
    by (simp add: py_range_def upt_rec)
  have s1: "draw_building 512 512 ?w1 = (Inr (), advance ?w2 n1 new1)"
    by (simp only: b dw)
  have s2: "for_each (py_range 15) (\<lambda>i. draw_building 512 512) ?w1 =
              (Inr (), advance (advance ?w2 n1 new1) n2 new2)"
    by (simp only: r15 for_each.simps bind_def s1 bt prod.case sum.case)
  have "render 512 512 w = (Inr (), advance (advance (advance ?w2 n1 new1) n2 new2) n3 new3)"
    by (simp only: rd bind_def c g s2 ls prod.case sum.case)
  then have "logged (render 512 512) w = ?c # ?G @ ?b # (new1 @ new2 @ new3)"
    by (simp add: logged_def)
  then show ?thesis by blast
qed


text \<open>
  C2, as stated, fails.  \<open>create_cyberpunk_city\<close> has no seed parameter and never seeds
  the random module, so two calls with the same (empty) argument list draw from wherever
  the process-wide generator stands.  With a generator that returns 0 the first building
  is the rectangle \<open>(0, 170, 30, 512)\<close> in colour \<open>(10, 10, 10)\<close>; with one that returns 2
  it is \<open>(2, 172, 34, 512)\<close> in \<open>(12, 12, 12)\<close>.
\<close>

theorem seed_determinism_counterexample:
  "logged (render 512 512) (world0 (\<lambda>n. 0) (\<lambda>p. False)) \<noteq>
   logged (render 512 512) (world0 (\<lambda>n. 2) (\<lambda>p. False))"
proof
  define G where "G = map (\<lambda>y. \<lparr>role = Background, shape = Line 0 y 512 y 0,
                        ink = gradient_color 512 y\<rparr>) (py_range 512)"
  define b0 where "b0 = \<lparr>role = Building, shape = FilledRect 0 170 30 512, ink = [10, 10, 10]\<rparr>"
  define b1 where "b1 = \<lparr>role = Building, shape = FilledRect 2 172 34 512, ink = [12, 12, 12]\<rparr>"
  define c where "c = \<lparr>role = Canvas, shape = NewImage 512 512, ink = [10, 10, 30]\<rparr>"
  assume eq: "logged (render 512 512) (world0 (\<lambda>n. 0) (\<lambda>p. False)) =
              logged (render 512 512) (world0 (\<lambda>n. 2) (\<lambda>p. False))"
  have len: "length G = 512" by (simp add: G_def py_range_def)
  have p0: "peek (world0 (\<lambda>n. 0) (\<lambda>p. False)) k = 0" for k
    by (simp add: peek_def world0_def)
  have p1: "peek (world0 (\<lambda>n. 2) (\<lambda>p. False)) k = 2" for k
    by (simp add: peek_def world0_def)
  have "\<exists>more. logged (render 512 512) (world0 (\<lambda>n. 0) (\<lambda>p. False)) = c # G @ b0 # more"
    using render_first_building [of "world0 (\<lambda>n. 0) (\<lambda>p. False)"]
    by (simp add: p0 G_def b0_def c_def)
  then obtain more0 where
    e0: "logged (render 512 512) (world0 (\<lambda>n. 0) (\<lambda>p. False)) = c # G @ b0 # more0" ..
  have "\<exists>more. logged (render 512 512) (world0 (\<lambda>n. 2) (\<lambda>p. False)) = c # G @ b1 # more"
    using render_first_building [of "world0 (\<lambda>n. 2) (\<lambda>p. False)"]
    by (simp add: p1 G_def b1_def c_def)
  then obtain more1 where
    e1: "logged (render 512 512) (world0 (\<lambda>n. 2) (\<lambda>p. False)) = c # G @ b1 # more1" ..
  from eq have "c # G @ b0 # more0 = c # G @ b1 # more1" by (simp only: e0 e1)
  then have "b0 = b1" by simp
  then show False by (simp add: b0_def b1_def)
qed

text \<open>
  C2, amended.  The renderer takes no seed; its output is a function of the raw numbers
  that the process-wide random module hands out during the run.  Two runs that are handed
  the same numbers (for instance after the caller has seeded the module identically) read
  equally many of them, issue the same drawing calls in the same order, and both succeed.
\<close>

theorem output_determined_by_draws:
  "same_draws (pos (snd (render 512 512 w)) - pos w) w w' \<longrightarrow>
     logged (render 512 512) w' = logged (render 512 512) w \<and>
     fst (render 512 512 w') = Inr () \<and> fst (render 512 512 w) = Inr () \<and>
     pos (snd (render 512 512 w')) - pos w' = pos (snd (render 512 512 w)) - pos w"
proof
  assume sd: "same_draws (pos (snd (render 512 512 w)) - pos w) w w'"
  from runsD [OF render_512, of w] obtain n new where
    r: "render 512 512 w = (Inr (), advance w n new)"
    and d: "\<forall>w'. same_draws n w w' \<longrightarrow> render 512 512 w' = (Inr (), advance w' n new)"
    by auto
  have "pos (snd (render 512 512 w)) - pos w = n" by (simp add: r)
  with sd d have r': "render 512 512 w' = (Inr (), advance w' n new)" by simp
  show "logged (render 512 512) w' = logged (render 512 512) w \<and>
     fst (render 512 512 w') = Inr () \<and> fst (render 512 512 w) = Inr () \<and>
     pos (snd (render 512 512 w')) - pos w' = pos (snd (render 512 512 w)) - pos w"
    by (simp add: r r' logged_def)
qed

theorem output_determined_by_draws_witness:
  "same_draws
     (pos (snd (render 512 512
        \<lparr>src = (\<lambda>n. n * 7919), pos = 5, calls = [], printed = [], dirs = [], files = [],
          unwritable = (\<lambda>p. False)\<rparr>)) - 5)
     \<lparr>src = (\<lambda>n. n * 7919), pos = 5, calls = [], printed = [], dirs = [], files = [],
       unwritable = (\<lambda>p. False)\<rparr>
     (world0 (\<lambda>n. (n + 5) * 7919) (\<lambda>p. True)) \<and>
   logged (render 512 512) (world0 (\<lambda>n. (n + 5) * 7919) (\<lambda>p. True)) =
   logged (render 512 512)
     \<lparr>src = (\<lambda>n. n * 7919), pos = 5, calls = [], printed = [], dirs = [], files = [],
       unwritable = (\<lambda>p. False)\<rparr>"
proof -
  let ?w = "\<lparr>src = (\<lambda>n. n * 7919), pos = 5, calls = [], printed = [], dirs = [], files = [],
             unwritable = (\<lambda>p. False)\<rparr>"
  let ?w' = "world0 (\<lambda>n. (n + 5) * 7919) (\<lambda>p. True)"
  have sd: "same_draws k ?w ?w'" for k
    by (simp add: same_draws_def world0_def add.commute)
  from output_determined_by_draws [of ?w ?w'] sd [of "pos (snd (render 512 512 ?w)) - pos ?w"]
  have "logged (render 512 512) ?w' = logged (render 512 512) ?w" by blast
  with sd [of "pos (snd (render 512 512 ?w)) - 5"] show ?thesis by simp
qed
subsection \<open>The size of the canvas is not an input\<close>

lemma singleton_filter:
  assumes "length (filter P xs) = 1" "\<And>x. x \<in> set xs \<Longrightarrow> P x \<Longrightarrow> x = c"
  shows "filter P xs = [c]"
proof -
  from assms(1) obtain x where x: "filter P xs = [x]"
    by (cases "filter P xs") auto
  then have "x \<in> set (filter P xs)" by simp
  then have "x \<in> set xs" "P x" by auto
  with assms(2) x show ?thesis by blast
qed

text \<open>
  A run calls \<open>Image.new\<close> exactly twice, for the image and for the overlay, both times
  with the size 512 x 512.
\<close>

lemma new_image_calls:
  "filter (\<lambda>c. role c = Canvas) (logged (render 512 512) w) =
     [\<lparr>role = Canvas, shape = NewImage 512 512, ink = [10, 10, 30]\<rparr>]"
  "filter (\<lambda>c. role c = Overlay) (logged (render 512 512) w) =
     [\<lparr>role = Overlay, shape = NewImage 512 512, ink = [0, 0, 0, 0]\<rparr>]"
proof -
  have spec: "call_spec 512 512 c" if "c \<in> set (logged (render 512 512) w)" for c
    using runs_logged [OF render_512, of w] that by (simp add: list_all_iff)
  from render_counts [of Canvas 0 0 0 0 0 0] stage_silent [of Canvas]
  have "logs_n Canvas 1 (render 512 512)" by simp
  then have n1: "length (filter (\<lambda>c. role c = Canvas) (logged (render 512 512) w)) = 1"
    by (simp add: logs_n_def count_role_def)
  show "filter (\<lambda>c. role c = Canvas) (logged (render 512 512) w) =
     [\<lparr>role = Canvas, shape = NewImage 512 512, ink = [10, 10, 30]\<rparr>]"
  proof (rule singleton_filter [OF n1])
    fix c assume "c \<in> set (logged (render 512 512) w)" "role c = Canvas"
    with spec [of c] spec_roles [of 512 512 c]
    have "is_canvas 512 512 c" unfolding call_spec_def by auto
    then show "c = \<lparr>role = Canvas, shape = NewImage 512 512, ink = [10, 10, 30]\<rparr>"
      by (simp add: is_canvas_def)
  qed
  from render_counts [of Overlay 0 0 0 0 0 0] stage_silent [of Overlay]
  have "logs_n Overlay 1 (render 512 512)" by simp
  then have n2: "length (filter (\<lambda>c. role c = Overlay) (logged (render 512 512) w)) = 1"
    by (simp add: logs_n_def count_role_def)
  show "filter (\<lambda>c. role c = Overlay) (logged (render 512 512) w) =
     [\<lparr>role = Overlay, shape = NewImage 512 512, ink = [0, 0, 0, 0]\<rparr>]"
  proof (rule singleton_filter [OF n2])
    fix c assume "c \<in> set (logged (render 512 512) w)" "role c = Overlay"
    with spec [of c] spec_roles [of 512 512 c]
    have "is_overlay 512 512 c" unfolding call_spec_def by auto
    then show "c = \<lparr>role = Overlay, shape = NewImage 512 512, ink = [0, 0, 0, 0]\<rparr>"
      by (simp add: is_overlay_def)
  qed
qed

text \<open>
  \<open>Image.new\<close> is the first call of a run, and it rejects a negative width or height
  before anything is drawn.  The entry point cannot get there: it fixes the size.
\<close>

lemma render_negative_size:
  "width < 0 \<or> height < 0 \<Longrightarrow> render width height w = (Inl ValueError, w)"
  by (auto simp: render_def bind_def draw_def raise_def)

text \<open>
  C9, as stated, fails.  \<open>create_cyberpunk_city\<close> is declared without parameters, so a
  call that passes a size fails whatever the size is: with the positive size 300 x 200 it
  raises \<open>TypeError\<close>, and nothing has been printed, drawn or written.
\<close>

theorem dimension_check_counterexample:
  "call_create_cyberpunk_city [300, 200] (world0 (\<lambda>n. 0) (\<lambda>p. False)) =
     (Inl TypeError, world0 (\<lambda>n. 0) (\<lambda>p. False))"
  by (simp add: call_create_cyberpunk_city_def raise_def)

text \<open>
  C9, amended.  The rendering routine takes no size and checks none.  A call that passes
  arguments, positive or not, raises \<open>TypeError\<close> and leaves the state as it was: nothing is
  printed, drawn or written.  The call without arguments runs the body, where the size
  is fixed: for every random source the first drawing call is \<open>Image.new\<close> for the image,
  the image and the overlay are each created once and with the size 512 x 512, the
  drawing stages succeed, and the image is exactly 512 x 512.
\<close>

theorem render_fixed_size:
  "(args \<noteq> [] \<longrightarrow> call_create_cyberpunk_city args w = (Inl TypeError, w)) \<and>
   call_create_cyberpunk_city [] w = create_cyberpunk_city w \<and>
   logged create_cyberpunk_city w =
     (if unwritable w ''ai-output'' then []
      else logged (render 512 512)
             (w\<lparr>printed := printed w @ [Creating], dirs := dirs w @ [''ai-output'']\<rparr>)) \<and>
   fst (render 512 512 w) = Inr () \<and>
   take 1 (logged (render 512 512) w) =
     [\<lparr>role = Canvas, shape = NewImage 512 512, ink = [10, 10, 30]\<rparr>] \<and>
   filter (\<lambda>c. role c = Canvas) (logged (render 512 512) w) =
     [\<lparr>role = Canvas, shape = NewImage 512 512, ink = [10, 10, 30]\<rparr>] \<and>
   filter (\<lambda>c. role c = Overlay) (logged (render 512 512) w) =
     [\<lparr>role = Overlay, shape = NewImage 512 512, ink = [0, 0, 0, 0]\<rparr>] \<and>
   cw (base_image 512 512 (logged (render 512 512) w)) = 512 \<and>
   ch (base_image 512 512 (logged (render 512 512) w)) = 512"
proof -
  have ty: "args \<noteq> [] \<longrightarrow> call_create_cyberpunk_city args w = (Inl TypeError, w)"
    by (simp add: call_create_cyberpunk_city_def raise_def)
  have body: "call_create_cyberpunk_city [] w = create_cyberpunk_city w"
    by (simp add: call_create_cyberpunk_city_def)
  have ok: "fst (render 512 512 w) = Inr ()"
    by (rule render_succeeds) simp_all
  from render_first_building [of w] obtain more where
    "logged (render 512 512) w =
       \<lparr>role = Canvas, shape = NewImage 512 512, ink = [10, 10, 30]\<rparr> # more"
    by auto
  then have first: "take 1 (logged (render 512 512) w) =
     [\<lparr>role = Canvas, shape = NewImage 512 512, ink = [10, 10, 30]\<rparr>]"
    by simp
  show ?thesis
    using ty body ok first new_image_calls [of w]
      image_size [of 512 512 "logged (render 512 512) w"] create_logged [of w]
    by blast
qed

theorem render_fixed_size_witness:
  "[0, 100] \<noteq> ([] :: int list) \<and>
   call_create_cyberpunk_city [0, 100] (world0 (\<lambda>n. 0) (\<lambda>p. False)) =
     (Inl TypeError, world0 (\<lambda>n. 0) (\<lambda>p. False)) \<and>
   files (snd (call_create_cyberpunk_city [0, 100] (world0 (\<lambda>n. 0) (\<lambda>p. False)))) = [] \<and>
   calls (snd (call_create_cyberpunk_city [0, 100] (world0 (\<lambda>n. 0) (\<lambda>p. False)))) = []"
proof -
  from render_fixed_size [of "[0, 100]" "world0 (\<lambda>n. 0) (\<lambda>p. False)"]
  have "call_create_cyberpunk_city [0, 100] (world0 (\<lambda>n. 0) (\<lambda>p. False)) =
     (Inl TypeError, world0 (\<lambda>n. 0) (\<lambda>p. False))"
    by simp
  then show ?thesis by (simp add: world0_def)
qed

end
